theory Spec2Isabelle
  imports Main "HOL-Library.AList" "HOL-Library.Char_ord" "HOL-Library.List_Lexorder"
begin

section \<open>Python values used by nova/quota.py\<close>

text \<open>
  A Python dict is an insertion-ordered association list. Assigning to a key that is
  present replaces the value in place; assigning to a new key appends it
  (\<open>AList.update\<close> does exactly this). \<open>sorted\<close> on names is \<open>sort\<close> on the
  lexicographic order of the character codes.
\<close>

type_synonym 'v dict = "(string \<times> 'v) list"

definition dict_get :: "'v dict \<Rightarrow> string \<Rightarrow> 'v option" where
  "dict_get d k = map_of d k"

definition dict_get_or :: "'v dict \<Rightarrow> string \<Rightarrow> 'v \<Rightarrow> 'v" where
  "dict_get_or d k dflt = (case map_of d k of None \<Rightarrow> dflt | Some v \<Rightarrow> v)"

definition dict_set :: "'v dict \<Rightarrow> string \<Rightarrow> 'v \<Rightarrow> 'v dict" where
  "dict_set d k v = AList.update k v d"

definition dict_pop :: "'v dict \<Rightarrow> string \<Rightarrow> 'v dict" where
  "dict_pop d k = AList.delete k d"

definition dict_keys :: "'v dict \<Rightarrow> string list" where
  "dict_keys d = map fst d"

text \<open>Truthiness of an optional string (\<open>if user_id:\<close>) and of an optional dict
  (\<open>project_quotas or ...\<close>): None and the empty value are false.\<close>

definition str_truthy :: "string option \<Rightarrow> bool" where
  "str_truthy s = (case s of None \<Rightarrow> False | Some x \<Rightarrow> x \<noteq> [])"

definition dict_or :: "'v dict option \<Rightarrow> 'v dict \<Rightarrow> 'v dict" where
  "dict_or d other = (case d of None \<Rightarrow> other | Some x \<Rightarrow> if x \<noteq> [] then x else other)"

datatype error =
    InvalidQuotaMethodUsage string string
  | InvalidQuotaValue "string list"
  | Invalid
  | QuotaResourceUnknown "string list"
  | OverQuota "string list" "int dict" "int dict"
  | KeyError string
  | AttributeError string
  | ValueError

text \<open>
  \<open>InvalidQuotaMethodUsage method res\<close>, \<open>InvalidQuotaValue unders\<close>,
  \<open>QuotaResourceUnknown unknown\<close> and \<open>OverQuota overs quotas headroom\<close> carry the
  keyword arguments the source passes (\<open>usages\<close> of OverQuota is always the empty dict).
\<close>

section \<open>Unlimited-aware arithmetic of DbQuotaDriver\<close>

definition UNLIMITED_VALUE :: int where
  "UNLIMITED_VALUE = -1"

definition is_unlimited_value :: "int \<Rightarrow> bool" where
  "is_unlimited_value v = (v \<le> UNLIMITED_VALUE)"

definition sum_quota_values :: "int \<Rightarrow> int \<Rightarrow> int" where
  "sum_quota_values v1 v2 =
     (if is_unlimited_value v1 \<or> is_unlimited_value v2 then UNLIMITED_VALUE else v1 + v2)"

definition sub_quota_values :: "int \<Rightarrow> int \<Rightarrow> int" where
  "sub_quota_values v1 v2 =
     (if is_unlimited_value v1 \<or> is_unlimited_value v2 then UNLIMITED_VALUE else v1 - v2)"

section \<open>Resources, request context and the quota tables\<close>

text \<open>
  \<open>BaseResource\<close>, \<open>AbsoluteResource\<close> and \<open>CountableResource\<close> form one class
  chain; only the last two carry \<open>valid_method = 'check'\<close>, and only the last carries
  a counting function. The counting function has the signature \<open>_get_usages\<close> relies
  on: project id and optional user id to a dict of scopes (\<open>'project'\<close>, \<open>'user'\<close>),
  each a dict of counts by resource name.
\<close>

datatype resource_class = BaseResource | AbsoluteResource | CountableResource

record resource =
  res_class :: resource_class
  name :: string
  flag :: "string option"
  count_as_dict :: "string \<Rightarrow> string option \<Rightarrow> (int dict) dict"

definition valid_method :: "resource \<Rightarrow> string option" where
  "valid_method r = (case res_class r of BaseResource \<Rightarrow> None | _ \<Rightarrow> Some ''check'')"

record request_context =
  ctx_project_id :: string
  ctx_user_id :: "string option"
  ctx_quota_class :: "string option"

text \<open>
  What the driver reads from outside this module: the \<open>[quota]\<close> configuration group
  and the \<open>objects.Quotas\<close> queries (the stored per-project overrides, the per-user
  overrides of one user, the quota classes, and \<open>get_all\<close>: every per-user override
  row of a project as (resource, hard_limit)).
\<close>

record env =
  conf_quota :: "string \<Rightarrow> int"
  get_default_class :: "int dict"
  get_all_class_by_name :: "string \<Rightarrow> int dict"
  get_all_by_project :: "string \<Rightarrow> int dict"
  get_all_by_project_and_user :: "string \<Rightarrow> string \<Rightarrow> int dict"
  get_all :: "string \<Rightarrow> (string \<times> int) list"
  quota_get_per_project_resources :: "string list"

definition resource_default :: "env \<Rightarrow> resource \<Rightarrow> int" where
  "resource_default e r =
     (case flag r of None \<Rightarrow> -1 | Some f \<Rightarrow> if f \<noteq> [] then conf_quota e f else -1)"

text \<open>The per-resource dict of \<open>_process_quotas\<close>: \<open>limit\<close> always, \<open>in_use\<close> and
  \<open>remains\<close> only when asked for.\<close>

record quota_info =
  limit :: int
  in_use :: "int option"
  remains :: "int option"

record settable =
  minimum :: int
  maximum :: int

section \<open>DbQuotaDriver: retrieving quotas\<close>

definition get_defaults :: "env \<Rightarrow> resource dict \<Rightarrow> int dict" where
  "get_defaults e resources =
     foldl (\<lambda>quotas r. dict_set quotas (name r)
              (dict_get_or (get_default_class e) (name r) (resource_default e r)))
       [] (map snd resources)"

definition get_class_quotas :: "env \<Rightarrow> resource dict \<Rightarrow> string \<Rightarrow> int dict" where
  "get_class_quotas e resources qclass =
     foldl (\<lambda>quotas r. dict_set quotas (name r)
              (dict_get_or (get_all_class_by_name e qclass) (name r) (resource_default e r)))
       [] (map snd resources)"

text \<open>
  \<open>_process_quotas\<close>. The lookup \<open>default_quotas[resource.name]\<close> cannot fail
  (\<open>get_defaults\<close> has just stored every name of the same resources, lemma
  \<open>get_defaults_has_name\<close>), so its fallback below is never taken. The second loop
  subtracts every per-user override row from \<open>remains\<close> with the plain \<open>-=\<close>.
\<close>

definition process_limit ::
  "env \<Rightarrow> int dict \<Rightarrow> int dict \<Rightarrow> int dict \<Rightarrow> resource \<Rightarrow> int" where
  "process_limit e quotas class_quotas default_quotas r =
     dict_get_or quotas (name r)
       (dict_get_or class_quotas (name r)
          (dict_get_or default_quotas (name r) (resource_default e r)))"

definition subtract_user_quota :: "quota_info dict \<Rightarrow> string \<times> int \<Rightarrow> quota_info dict" where
  "subtract_user_quota modified_quotas quota =
     (case dict_get modified_quotas (fst quota) of
        None \<Rightarrow> modified_quotas
      | Some q \<Rightarrow> dict_set modified_quotas (fst quota)
                  (q\<lparr>remains := map_option (\<lambda>x. x - snd quota) (remains q)\<rparr>))"

definition process_quotas ::
  "env \<Rightarrow> request_context \<Rightarrow> resource dict \<Rightarrow> string \<Rightarrow> int dict \<Rightarrow> string option
   \<Rightarrow> int dict \<Rightarrow> bool \<Rightarrow> quota_info dict" where
  "process_quotas e ctx resources project_id quotas quota_class usages want_remains =
     (let quota_class' = (if project_id = ctx_project_id ctx then ctx_quota_class ctx
                          else quota_class);
          class_quotas = (if str_truthy quota_class'
                          then get_all_class_by_name e (the quota_class') else []);
          default_quotas = get_defaults e resources;
          modified_quotas =
            foldl (\<lambda>m r.
                let lim = process_limit e quotas class_quotas default_quotas r
                in dict_set m (name r)
                     \<lparr>limit = lim,
                      in_use = (if usages \<noteq> [] then Some (dict_get_or usages (name r) 0)
                                else None),
                      remains = (if want_remains then Some lim else None)\<rparr>)
              [] (map snd resources)
      in if want_remains then foldl subtract_user_quota modified_quotas (get_all e project_id)
         else modified_quotas)"

text \<open>\<open>_get_usages\<close>: one pass over the resources, counting each countable resource
  not yet counted; \<open>count[key]\<close> raises KeyError when the counting function returned no
  such scope.\<close>

fun get_usages_loop ::
  "env \<Rightarrow> string \<Rightarrow> string option \<Rightarrow> resource list \<Rightarrow> int dict \<Rightarrow> error + int dict" where
  "get_usages_loop e project_id user_id [] usages = Inr usages"
| "get_usages_loop e project_id user_id (r # rs) usages =
     (if res_class r \<noteq> CountableResource then get_usages_loop e project_id user_id rs usages
      else if name r \<in> set (dict_keys usages)
        then get_usages_loop e project_id user_id rs usages
      else if name r \<in> set [''key_pairs'', ''server_group_members'']
        then get_usages_loop e project_id user_id rs (dict_set usages (name r) 0)
      else
        (let per_project = (name r \<in> set (quota_get_per_project_resources e));
             count = (if per_project then count_as_dict r project_id None
                      else count_as_dict r project_id user_id);
             key = (if per_project then ''project''
                    else if str_truthy user_id then ''user'' else ''project'')
         in case dict_get count key of
              None \<Rightarrow> Inl (KeyError key)
            | Some counted \<Rightarrow>
                get_usages_loop e project_id user_id rs
                  (foldl (\<lambda>u kv. dict_set u (fst kv) (snd kv)) usages counted)))"

definition get_usages ::
  "env \<Rightarrow> resource dict \<Rightarrow> string \<Rightarrow> string option \<Rightarrow> error + int dict" where
  "get_usages e resources project_id user_id =
     get_usages_loop e project_id user_id (map snd resources) []"

definition get_user_quotas ::
  "env \<Rightarrow> request_context \<Rightarrow> resource dict \<Rightarrow> string \<Rightarrow> string \<Rightarrow> string option \<Rightarrow> bool
   \<Rightarrow> int dict option \<Rightarrow> int dict option \<Rightarrow> error + quota_info dict" where
  "get_user_quotas e ctx resources project_id user_id quota_class usages project_quotas
     user_quotas =
     (let user_quotas0 = dict_or user_quotas (get_all_by_project_and_user e project_id user_id);
          proj_quotas = dict_or project_quotas (get_all_by_project e project_id);
          user_quotas1 =
            foldl (\<lambda>u kv. if fst kv \<notin> set (dict_keys u) then dict_set u (fst kv) (snd kv) else u)
              user_quotas0 proj_quotas
      in case (if usages then get_usages e resources project_id (Some user_id) else Inr []) of
           Inl err \<Rightarrow> Inl err
         | Inr user_usages \<Rightarrow>
             Inr (process_quotas e ctx resources project_id user_quotas1 quota_class
                    user_usages False))"

definition get_project_quotas ::
  "env \<Rightarrow> request_context \<Rightarrow> resource dict \<Rightarrow> string \<Rightarrow> string option \<Rightarrow> bool \<Rightarrow> bool
   \<Rightarrow> int dict option \<Rightarrow> error + quota_info dict" where
  "get_project_quotas e ctx resources project_id quota_class usages want_remains
     project_quotas =
     (let project_quotas' = dict_or project_quotas (get_all_by_project e project_id)
      in case (if usages then get_usages e resources project_id None else Inr []) of
           Inl err \<Rightarrow> Inl err
         | Inr project_usages \<Rightarrow>
             Inr (process_quotas e ctx resources project_id project_quotas' quota_class
                    project_usages want_remains))"

text \<open>
  \<open>_get_quotas\<close>: the registry restricted to the desired keys; when the sizes differ,
  QuotaResourceUnknown with the sorted names of \<open>desired - set(sub_resources)\<close>;
  otherwise the limits (without usages) at user scope when \<open>user_id\<close> is set, at
  project scope when not.
\<close>

definition get_quotas ::
  "env \<Rightarrow> request_context \<Rightarrow> resource dict \<Rightarrow> string list \<Rightarrow> string \<Rightarrow> string option
   \<Rightarrow> int dict option \<Rightarrow> error + int dict" where
  "get_quotas e ctx resources keys project_id user_id project_quotas =
     (let sub_resources = filter (\<lambda>kv. fst kv \<in> set keys) resources
      in if length keys \<noteq> length sub_resources
         then Inl (QuotaResourceUnknown
                (sort (remdups (filter (\<lambda>k. k \<notin> set (dict_keys sub_resources)) keys))))
         else
           case (if str_truthy user_id
                 then get_user_quotas e ctx sub_resources project_id (the user_id)
                        (ctx_quota_class ctx) False project_quotas None
                 else get_project_quotas e ctx sub_resources project_id
                        (ctx_quota_class ctx) False False project_quotas) of
             Inl err \<Rightarrow> Inl err
           | Inr quotas \<Rightarrow> Inr (map (\<lambda>kv. (fst kv, limit (snd kv))) quotas))"

section \<open>DbQuotaDriver: settable quotas\<close>

text \<open>
  The two loops of \<open>get_settable_quotas\<close>. \<open>project_quotas[key]\<close> and
  \<open>value['in_use']\<close> raise KeyError when the entry is missing (\<open>in_use\<close> is missing
  when the usages dict was empty).
\<close>

fun settable_user_loop ::
  "quota_info dict \<Rightarrow> int dict \<Rightarrow> quota_info dict \<Rightarrow> settable dict \<Rightarrow> error + settable dict"
  where
  "settable_user_loop project_quotas setted_quotas [] settable_quotas = Inr settable_quotas"
| "settable_user_loop project_quotas setted_quotas ((key, val) # rest) settable_quotas =
     (case dict_get project_quotas key of
        None \<Rightarrow> Inl (KeyError key)
      | Some pq \<Rightarrow>
          (case remains pq of
             None \<Rightarrow> Inl (KeyError ''remains'')
           | Some rem \<Rightarrow>
               (case in_use val of
                  None \<Rightarrow> Inl (KeyError ''in_use'')
                | Some used \<Rightarrow>
                    settable_user_loop project_quotas setted_quotas rest
                      (dict_set settable_quotas key
                         \<lparr>minimum = used,
                          maximum = sum_quota_values rem (dict_get_or setted_quotas key 0)\<rparr>))))"

fun settable_project_loop :: "quota_info dict \<Rightarrow> settable dict \<Rightarrow> error + settable dict" where
  "settable_project_loop [] settable_quotas = Inr settable_quotas"
| "settable_project_loop ((key, val) # rest) settable_quotas =
     (case remains val of
        None \<Rightarrow> Inl (KeyError ''remains'')
      | Some rem \<Rightarrow>
          (case in_use val of
             None \<Rightarrow> Inl (KeyError ''in_use'')
           | Some used \<Rightarrow>
               settable_project_loop rest
                 (dict_set settable_quotas key
                    \<lparr>minimum = max (sub_quota_values (limit val) rem) used, maximum = -1\<rparr>)))"

definition get_settable_quotas ::
  "env \<Rightarrow> request_context \<Rightarrow> resource dict \<Rightarrow> string \<Rightarrow> string option \<Rightarrow> error + settable dict"
  where
  "get_settable_quotas e ctx resources project_id user_id =
     (let db_proj_quotas = get_all_by_project e project_id
      in case get_project_quotas e ctx resources project_id None True True
                (Some db_proj_quotas) of
           Inl err \<Rightarrow> Inl err
         | Inr project_quotas \<Rightarrow>
             if str_truthy user_id then
               (let setted_quotas = get_all_by_project_and_user e project_id (the user_id)
                in case get_user_quotas e ctx resources project_id (the user_id) None True
                          (Some db_proj_quotas) (Some setted_quotas) of
                     Inl err \<Rightarrow> Inl err
                   | Inr user_quotas \<Rightarrow>
                       settable_user_loop project_quotas setted_quotas user_quotas [])
             else settable_project_loop project_quotas [])"

text \<open>
  Vocabulary for the statements about settable quotas. \<open>granted rows k\<close> is the sum of
  the per-user override rows of resource \<open>k\<close>. \<open>claimed_remains\<close> follows the
  specification's words, not the code: the project limit minus the sum of the per-user
  overrides, with Unlimited propagating through the sum and the difference.
\<close>

definition granted :: "(string \<times> int) list \<Rightarrow> string \<Rightarrow> int" where
  "granted rows k = sum_list (map snd (filter (\<lambda>row. fst row = k) rows))"

definition claimed_remains :: "int \<Rightarrow> int list \<Rightarrow> int" where
  "claimed_remains lim overrides = sub_quota_values lim (foldl sum_quota_values 0 overrides)"

section \<open>DbQuotaDriver: limit checks\<close>

definition valid_method_call_check_resource ::
  "string \<Rightarrow> string \<Rightarrow> resource dict \<Rightarrow> error + unit" where
  "valid_method_call_check_resource nm method resources =
     (case dict_get resources nm of
        None \<Rightarrow> Inl (InvalidQuotaMethodUsage method nm)
      | Some res \<Rightarrow>
          (case valid_method res of
             None \<Rightarrow> Inl (AttributeError ''valid_method'')
           | Some m \<Rightarrow> if m \<noteq> method then Inl (InvalidQuotaMethodUsage method nm) else Inr ()))"

fun valid_method_call_check_names ::
  "string list \<Rightarrow> string \<Rightarrow> resource dict \<Rightarrow> error + unit" where
  "valid_method_call_check_names [] method resources = Inr ()"
| "valid_method_call_check_names (nm # nms) method resources =
     (case valid_method_call_check_resource nm method resources of
        Inl err \<Rightarrow> Inl err
      | Inr u \<Rightarrow> valid_method_call_check_names nms method resources)"

definition valid_method_call_check_resources ::
  "int dict \<Rightarrow> string \<Rightarrow> resource dict \<Rightarrow> error + unit" where
  "valid_method_call_check_resources resource_values method resources =
     valid_method_call_check_names (dict_keys resource_values) method resources"

definition unders_of :: "int dict \<Rightarrow> string list" where
  "unders_of vals = map fst (filter (\<lambda>kv. snd kv < 0) vals)"

text \<open>
  The comprehension that builds \<open>overs\<close> in \<open>limit_check\<close>. Python reads
  \<open>a and b or (c and d)\<close> as \<open>(a and b) or (c and d)\<close> and does not evaluate
  \<open>user_quotas[key]\<close> when the project-scope test already holds.
\<close>

definition over_limit :: "int \<Rightarrow> int \<Rightarrow> bool" where
  "over_limit lim val = (lim \<ge> 0 \<and> lim < val)"

fun limit_check_overs :: "int dict \<Rightarrow> int dict \<Rightarrow> int dict \<Rightarrow> error + string list" where
  "limit_check_overs quotas user_quotas [] = Inr []"
| "limit_check_overs quotas user_quotas ((key, val) # rest) =
     (case dict_get quotas key of
        None \<Rightarrow> Inl (KeyError key)
      | Some q \<Rightarrow>
          if over_limit q val then
            (case limit_check_overs quotas user_quotas rest of
               Inl err \<Rightarrow> Inl err | Inr overs \<Rightarrow> Inr (key # overs))
          else
            (case dict_get user_quotas key of
               None \<Rightarrow> Inl (KeyError key)
             | Some uq \<Rightarrow>
                 (case limit_check_overs quotas user_quotas rest of
                    Inl err \<Rightarrow> Inl err
                  | Inr overs \<Rightarrow> Inr (if over_limit uq val then key # overs else overs))))"

text \<open>\<open>min(val for val in (quotas.get(key), project_quotas.get(key)) if val is not
  None)\<close>; \<open>min\<close> of nothing raises ValueError.\<close>

definition headroom_value :: "int dict \<Rightarrow> int dict \<Rightarrow> string \<Rightarrow> error + int" where
  "headroom_value quotas project_quotas key =
     (case List.map_filter id [dict_get quotas key, dict_get project_quotas key] of
        [] \<Rightarrow> Inl ValueError
      | v # vs \<Rightarrow> Inr (fold min vs v))"

fun limit_check_headroom ::
  "int dict \<Rightarrow> int dict \<Rightarrow> string list \<Rightarrow> int dict \<Rightarrow> error + int dict" where
  "limit_check_headroom quotas project_quotas [] headroom = Inr headroom"
| "limit_check_headroom quotas project_quotas (key # rest) headroom =
     (case headroom_value quotas project_quotas key of
        Inl err \<Rightarrow> Inl err
      | Inr h \<Rightarrow> limit_check_headroom quotas project_quotas rest (dict_set headroom key h))"

text \<open>The two \<open>_get_quotas\<close> calls of \<open>limit_check\<close>: the local variables
  \<open>quotas\<close> (no user id: project scope) and \<open>user_quotas\<close> (user scope).\<close>

definition scope_project_id :: "request_context \<Rightarrow> string option \<Rightarrow> string" where
  "scope_project_id ctx project_id =
     (case project_id of None \<Rightarrow> ctx_project_id ctx | Some p \<Rightarrow> p)"

definition scope_user_id :: "request_context \<Rightarrow> string option \<Rightarrow> string option" where
  "scope_user_id ctx user_id = (case user_id of None \<Rightarrow> ctx_user_id ctx | Some u \<Rightarrow> Some u)"

definition project_scope_quotas ::
  "env \<Rightarrow> request_context \<Rightarrow> resource dict \<Rightarrow> string list \<Rightarrow> string option
   \<Rightarrow> error + int dict" where
  "project_scope_quotas e ctx resources keys project_id =
     (let pid = scope_project_id ctx project_id
      in get_quotas e ctx resources keys pid None (Some (get_all_by_project e pid)))"

definition user_scope_quotas ::
  "env \<Rightarrow> request_context \<Rightarrow> resource dict \<Rightarrow> string list \<Rightarrow> string option \<Rightarrow> string option
   \<Rightarrow> error + int dict" where
  "user_scope_quotas e ctx resources keys project_id user_id =
     (let pid = scope_project_id ctx project_id
      in get_quotas e ctx resources keys pid (scope_user_id ctx user_id)
           (Some (get_all_by_project e pid)))"

definition limit_check ::
  "env \<Rightarrow> request_context \<Rightarrow> resource dict \<Rightarrow> int dict \<Rightarrow> string option \<Rightarrow> string option
   \<Rightarrow> error + unit" where
  "limit_check e ctx resources vals project_id user_id =
     (case valid_method_call_check_resources vals ''check'' resources of
        Inl err \<Rightarrow> Inl err
      | Inr u \<Rightarrow>
          if unders_of vals \<noteq> [] then Inl (InvalidQuotaValue (sort (unders_of vals)))
          else
            (let project_quotas = get_all_by_project e (scope_project_id ctx project_id)
             in case project_scope_quotas e ctx resources (dict_keys vals) project_id of
                  Inl err \<Rightarrow> Inl err
                | Inr quotas \<Rightarrow>
                    (case user_scope_quotas e ctx resources (dict_keys vals) project_id
                            user_id of
                       Inl err \<Rightarrow> Inl err
                     | Inr user_quotas \<Rightarrow>
                         (case limit_check_overs quotas user_quotas vals of
                            Inl err \<Rightarrow> Inl err
                          | Inr overs \<Rightarrow>
                              if overs \<noteq> [] then
                                (case limit_check_headroom quotas project_quotas overs [] of
                                   Inl err \<Rightarrow> Inl err
                                 | Inr headroom \<Rightarrow>
                                     Inl (OverQuota (sort overs) quotas headroom))
                              else Inr ()))))"

subsection \<open>limit_check_project_and_user\<close>

text \<open>
  The function mutates the two dicts it is given, so the model returns, beside the
  outcome, the final contents of \<open>project_values\<close> and \<open>user_values\<close>. Python sets
  have no specified iteration order; the model lists \<open>all_keys\<close> and \<open>keys_to_merge\<close>
  in order of first appearance (project keys first). Only the order of entries inside
  \<open>merged_values\<close> and \<open>headroom\<close> depends on that choice; \<open>overs\<close> is sorted.
\<close>

definition py_or :: "int \<Rightarrow> int \<Rightarrow> int" where
  "py_or a b = (if a \<noteq> 0 then a else b)"

definition all_keys_of :: "int dict \<Rightarrow> int dict \<Rightarrow> string list" where
  "all_keys_of project_values user_values =
     remdups (dict_keys project_values @ dict_keys user_values)"

definition keys_to_merge_of :: "int dict \<Rightarrow> int dict \<Rightarrow> string list" where
  "keys_to_merge_of project_values user_values =
     remdups (filter (\<lambda>k. k \<notin> set (dict_keys user_values)) (dict_keys project_values)
            @ filter (\<lambda>k. k \<notin> set (dict_keys project_values)) (dict_keys user_values))"

record merge_state =
  project_values_now :: "int dict"
  user_values_now :: "int dict"
  merged_values :: "int dict"

definition merge_step :: "merge_state \<Rightarrow> string \<Rightarrow> merge_state" where
  "merge_step s key =
     \<lparr>project_values_now = dict_pop (project_values_now s) key,
      user_values_now = dict_pop (user_values_now s) key,
      merged_values = dict_set (merged_values s) key
         (py_or (dict_get_or (project_values_now s) key 0)
                (dict_get_or (user_values_now s) key 0))\<rparr>"

definition merge_values :: "int dict \<Rightarrow> int dict \<Rightarrow> merge_state" where
  "merge_values project_values user_values =
     foldl merge_step
       \<lparr>project_values_now = project_values, user_values_now = user_values,
        merged_values = []\<rparr>
       (keys_to_merge_of project_values user_values)"

text \<open>The value the merge loop stores for a key: \<open>project_values.get(key, 0) or
  user_values.get(key, 0)\<close>.\<close>

definition merged_value :: "int dict \<Rightarrow> int dict \<Rightarrow> string \<Rightarrow> int" where
  "merged_value pv uv k = py_or (dict_get_or pv k 0) (dict_get_or uv k 0)"

definition merge_quotas :: "int dict \<Rightarrow> int dict \<Rightarrow> int dict" where
  "merge_quotas quotas user_quotas =
     foldl (\<lambda>m kv. case dict_get m (fst kv) of
                      Some x \<Rightarrow> dict_set m (fst kv) (min x (snd kv))
                    | None \<Rightarrow> dict_set m (fst kv) (snd kv))
       quotas user_quotas"

fun merged_overs :: "int dict \<Rightarrow> int dict \<Rightarrow> error + string list" where
  "merged_overs merged_quotas [] = Inr []"
| "merged_overs merged_quotas ((key, val) # rest) =
     (case dict_get merged_quotas key of
        None \<Rightarrow> Inl (KeyError key)
      | Some m \<Rightarrow>
          (case merged_overs merged_quotas rest of
             Inl err \<Rightarrow> Inl err
           | Inr overs \<Rightarrow> Inr (if over_limit m val then key # overs else overs)))"

text \<open>\<open>for key in overs: headroom[key] = d[key]\<close>\<close>

fun headroom_from :: "int dict \<Rightarrow> string list \<Rightarrow> int dict \<Rightarrow> error + int dict" where
  "headroom_from d [] headroom = Inr headroom"
| "headroom_from d (key # rest) headroom =
     (case dict_get d key of
        None \<Rightarrow> Inl (KeyError key)
      | Some v \<Rightarrow> headroom_from d rest (dict_set headroom key v))"

text \<open>The loop over the keys left in \<open>user_values\<close>: per key, the project test with
  \<open>project_values[key]\<close> first, the user test with \<open>user_values[key]\<close> only when the
  project test fails. Each \<open>and\<close> evaluates its second operand only when the first
  holds.\<close>

datatype verdict = NotOver | OverProject | OverUser

definition both_verdict ::
  "int dict \<Rightarrow> int dict \<Rightarrow> int dict \<Rightarrow> int dict \<Rightarrow> string \<Rightarrow> error + verdict" where
  "both_verdict quotas user_quotas project_values user_values key =
     (case dict_get quotas key of
        None \<Rightarrow> Inl (KeyError key)
      | Some q \<Rightarrow>
          (case (if q \<ge> 0 then
                   (case dict_get project_values key of
                      None \<Rightarrow> Inl (KeyError key) | Some pval \<Rightarrow> Inr (q < pval))
                 else Inr False) of
             Inl err \<Rightarrow> Inl err
           | Inr True \<Rightarrow> Inr OverProject
           | Inr False \<Rightarrow>
               (case dict_get user_quotas key of
                  None \<Rightarrow> Inl (KeyError key)
                | Some uq \<Rightarrow>
                    if uq \<ge> 0 then
                      (case dict_get user_values key of
                         None \<Rightarrow> Inl (KeyError key)
                       | Some uval \<Rightarrow> Inr (if uq < uval then OverUser else NotOver))
                    else Inr NotOver)))"

fun both_overs ::
  "int dict \<Rightarrow> int dict \<Rightarrow> int dict \<Rightarrow> int dict \<Rightarrow> string list \<Rightarrow> error + (string list \<times> bool)"
  where
  "both_overs quotas user_quotas project_values user_values [] = Inr ([], False)"
| "both_overs quotas user_quotas project_values user_values (key # rest) =
     (case both_verdict quotas user_quotas project_values user_values key of
        Inl err \<Rightarrow> Inl err
      | Inr v \<Rightarrow>
          (case both_overs quotas user_quotas project_values user_values rest of
             Inl err \<Rightarrow> Inl err
           | Inr (overs, over_user_quota) \<Rightarrow>
               Inr (if v = NotOver then overs else key # overs,
                    over_user_quota \<or> v = OverUser)))"

definition merged_check :: "int dict \<Rightarrow> int dict \<Rightarrow> int dict \<Rightarrow> error + unit" where
  "merged_check quotas user_quotas merged =
     (if merged \<noteq> [] then
        (let merged_quotas = merge_quotas quotas user_quotas
         in case merged_overs merged_quotas merged of
              Inl err \<Rightarrow> Inl err
            | Inr overs \<Rightarrow>
                if overs \<noteq> [] then
                  (case headroom_from merged_quotas overs [] of
                     Inl err \<Rightarrow> Inl err
                   | Inr headroom \<Rightarrow> Inl (OverQuota (sort overs) merged_quotas headroom))
                else Inr ())
      else Inr ())"

definition both_check :: "int dict \<Rightarrow> int dict \<Rightarrow> int dict \<Rightarrow> int dict \<Rightarrow> error + unit" where
  "both_check quotas user_quotas project_values user_values =
     (case both_overs quotas user_quotas project_values user_values (dict_keys user_values) of
        Inl err \<Rightarrow> Inl err
      | Inr (overs, over_user_quota) \<Rightarrow>
          if overs \<noteq> [] then
            (let quotas_exceeded = (if over_user_quota then user_quotas else quotas)
             in case headroom_from quotas_exceeded overs [] of
                  Inl err \<Rightarrow> Inl err
                | Inr headroom \<Rightarrow> Inl (OverQuota (sort overs) quotas_exceeded headroom))
          else Inr ())"

definition limit_checks_after_merge ::
  "env \<Rightarrow> request_context \<Rightarrow> resource dict \<Rightarrow> string list \<Rightarrow> merge_state \<Rightarrow> string option
   \<Rightarrow> string option \<Rightarrow> error + unit" where
  "limit_checks_after_merge e ctx resources all_keys s project_id user_id =
     (case project_scope_quotas e ctx resources all_keys project_id of
        Inl err \<Rightarrow> Inl err
      | Inr quotas \<Rightarrow>
          (case user_scope_quotas e ctx resources all_keys project_id user_id of
             Inl err \<Rightarrow> Inl err
           | Inr user_quotas \<Rightarrow>
               (case merged_check quotas user_quotas (merged_values s) of
                  Inl err \<Rightarrow> Inl err
                | Inr u \<Rightarrow>
                    both_check quotas user_quotas (project_values_now s)
                      (user_values_now s))))"

definition limit_check_project_and_user ::
  "env \<Rightarrow> request_context \<Rightarrow> resource dict \<Rightarrow> int dict option \<Rightarrow> int dict option
   \<Rightarrow> string option \<Rightarrow> string option \<Rightarrow> (error + unit) \<times> int dict \<times> int dict" where
  "limit_check_project_and_user e ctx resources project_values user_values project_id
     user_id =
     (let pv = (case project_values of None \<Rightarrow> [] | Some d \<Rightarrow> d);
          uv = (case user_values of None \<Rightarrow> [] | Some d \<Rightarrow> d)
      in case valid_method_call_check_resources pv ''check'' resources of
           Inl err \<Rightarrow> (Inl err, pv, uv)
         | Inr u \<Rightarrow>
             (case valid_method_call_check_resources uv ''check'' resources of
                Inl err \<Rightarrow> (Inl err, pv, uv)
              | Inr u' \<Rightarrow>
                  if pv = [] \<and> uv = [] then (Inl Invalid, pv, uv)
                  else if unders_of pv \<noteq> []
                    then (Inl (InvalidQuotaValue (sort (unders_of pv))), pv, uv)
                  else if unders_of uv \<noteq> []
                    then (Inl (InvalidQuotaValue (sort (unders_of uv))), pv, uv)
                  else
                    (let s = merge_values pv uv
                     in (limit_checks_after_merge e ctx resources (all_keys_of pv uv) s
                           project_id user_id,
                         project_values_now s, user_values_now s))))"

text \<open>
  Vocabulary for the statements about \<open>limit_check_project_and_user\<close>.
  \<open>arguments_accepted\<close>: the call gets past its argument checks (every name is
  registered and check-capable, at least one dict is non-empty, no value is negative).
  \<open>only_in_one\<close>: the value of a key requested in exactly one of the two dicts.
  \<open>merged_over\<close>: the keys requested in exactly one dict whose value exceeds the
  minimum of the project-scope and the user-scope limit. \<open>both_over\<close>: the keys
  requested in both dicts whose project value exceeds the project-scope limit or whose
  user value exceeds the user-scope limit.
\<close>

definition arguments_accepted :: "resource dict \<Rightarrow> int dict \<Rightarrow> int dict \<Rightarrow> bool" where
  "arguments_accepted resources pv uv =
     (valid_method_call_check_resources pv ''check'' resources = Inr ()
      \<and> valid_method_call_check_resources uv ''check'' resources = Inr ()
      \<and> (pv \<noteq> [] \<or> uv \<noteq> [])
      \<and> unders_of pv = [] \<and> unders_of uv = [])"

definition only_in_one :: "int dict \<Rightarrow> int dict \<Rightarrow> string \<Rightarrow> int option" where
  "only_in_one pv uv k =
     (case dict_get pv k of
        Some v \<Rightarrow> (case dict_get uv k of None \<Rightarrow> Some v | Some v' \<Rightarrow> None)
      | None \<Rightarrow> dict_get uv k)"

definition merged_over :: "int dict \<Rightarrow> int dict \<Rightarrow> int dict \<Rightarrow> int dict \<Rightarrow> string set" where
  "merged_over quotas user_quotas pv uv =
     {k. \<exists>v ql ul. only_in_one pv uv k = Some v \<and> dict_get quotas k = Some ql
           \<and> dict_get user_quotas k = Some ul \<and> over_limit (min ql ul) v}"

definition both_over :: "int dict \<Rightarrow> int dict \<Rightarrow> int dict \<Rightarrow> int dict \<Rightarrow> string set" where
  "both_over quotas user_quotas pv uv =
     {k. \<exists>pval uval ql ul. dict_get pv k = Some pval \<and> dict_get uv k = Some uval
           \<and> dict_get quotas k = Some ql \<and> dict_get user_quotas k = Some ul
           \<and> (over_limit ql pval \<or> over_limit ul uval)}"

section \<open>QuotaEngine\<close>

text \<open>\<open>QuotaEngine.__init__\<close> stores \<open>{resource.name: resource for resource in
  resources}\<close>; \<open>resources\<close> is the sorted list of its keys; \<open>count_as_dict\<close> raises
  QuotaResourceUnknown for a name that is absent or has no counting function.\<close>

definition QuotaEngine :: "resource list \<Rightarrow> resource dict" where
  "QuotaEngine resources = foldl (\<lambda>d r. dict_set d (name r) r) [] resources"

definition engine_resources :: "resource dict \<Rightarrow> string list" where
  "engine_resources registry = sort (dict_keys registry)"

definition engine_count_as_dict ::
  "resource dict \<Rightarrow> string \<Rightarrow> string \<Rightarrow> string option \<Rightarrow> error + (int dict) dict" where
  "engine_count_as_dict registry resource project_id user_id =
     (case dict_get registry resource of
        None \<Rightarrow> Inl (QuotaResourceUnknown [resource])
      | Some res \<Rightarrow>
          if res_class res \<noteq> CountableResource then Inl (QuotaResourceUnknown [resource])
          else Inr (count_as_dict res project_id user_id))"

text \<open>A registry as the constructor leaves it: one entry per name, each keyed by the
  name of its resource.\<close>

definition registry_ok :: "resource dict \<Rightarrow> bool" where
  "registry_ok registry =
     (distinct (dict_keys registry) \<and> list_all (\<lambda>kv. name (snd kv) = fst kv) registry)"

text \<open>
  The module's registry \<open>QUOTAS\<close>. The four counting functions are defined further
  down the module against the database and placement; the registry takes them as
  parameters.
\<close>

definition QUOTAS ::
  "(string \<Rightarrow> string option \<Rightarrow> (int dict) dict) \<Rightarrow> (string \<Rightarrow> string option \<Rightarrow> (int dict) dict)
   \<Rightarrow> (string \<Rightarrow> string option \<Rightarrow> (int dict) dict)
   \<Rightarrow> (string \<Rightarrow> string option \<Rightarrow> (int dict) dict) \<Rightarrow> resource dict" where
  "QUOTAS count_icr count_key_pairs count_server_groups count_members =
     QuotaEngine
       [\<lparr>res_class = CountableResource, name = ''instances'', flag = Some ''instances'',
         count_as_dict = count_icr\<rparr>,
        \<lparr>res_class = CountableResource, name = ''cores'', flag = Some ''cores'',
         count_as_dict = count_icr\<rparr>,
        \<lparr>res_class = CountableResource, name = ''ram'', flag = Some ''ram'',
         count_as_dict = count_icr\<rparr>,
        \<lparr>res_class = AbsoluteResource, name = ''metadata_items'',
         flag = Some ''metadata_items'', count_as_dict = (\<lambda>p u. [])\<rparr>,
        \<lparr>res_class = AbsoluteResource, name = ''injected_files'',
         flag = Some ''injected_files'', count_as_dict = (\<lambda>p u. [])\<rparr>,
        \<lparr>res_class = AbsoluteResource, name = ''injected_file_content_bytes'',
         flag = Some ''injected_file_content_bytes'', count_as_dict = (\<lambda>p u. [])\<rparr>,
        \<lparr>res_class = AbsoluteResource, name = ''injected_file_path_bytes'',
         flag = Some ''injected_file_path_length'', count_as_dict = (\<lambda>p u. [])\<rparr>,
        \<lparr>res_class = CountableResource, name = ''key_pairs'', flag = Some ''key_pairs'',
         count_as_dict = count_key_pairs\<rparr>,
        \<lparr>res_class = CountableResource, name = ''server_groups'',
         flag = Some ''server_groups'', count_as_dict = count_server_groups\<rparr>,
        \<lparr>res_class = CountableResource, name = ''server_group_members'',
         flag = Some ''server_group_members'', count_as_dict = count_members\<rparr>,
        \<lparr>res_class = AbsoluteResource, name = ''fixed_ips'', flag = None,
         count_as_dict = (\<lambda>p u. [])\<rparr>,
        \<lparr>res_class = AbsoluteResource, name = ''floating_ips'', flag = None,
         count_as_dict = (\<lambda>p u. [])\<rparr>,
        \<lparr>res_class = AbsoluteResource, name = ''security_groups'', flag = None,
         count_as_dict = (\<lambda>p u. [])\<rparr>,
        \<lparr>res_class = AbsoluteResource, name = ''security_group_rules'', flag = None,
         count_as_dict = (\<lambda>p u. [])\<rparr>]"

section \<open>Counting instances, cores and ram\<close>

text \<open>
  \<open>_user_id_queued_for_delete_populated\<close>: an EXISTS query over the instance mappings
  for a row with \<open>queued_for_delete\<close> NULL, or with \<open>user_id\<close> NULL and
  \<open>queued_for_delete\<close> false, restricted to the project when one is given; the
  function returns whether no such row exists.
\<close>

record instance_mapping =
  im_project_id :: string
  im_user_id :: "string option"
  im_queued_for_delete :: "bool option"

definition unmigrated :: "instance_mapping \<Rightarrow> bool" where
  "unmigrated m =
     (im_queued_for_delete m = None
      \<or> (im_user_id m = None \<and> im_queued_for_delete m = Some False))"

definition user_id_queued_for_delete_populated ::
  "instance_mapping list \<Rightarrow> string option \<Rightarrow> bool" where
  "user_id_queued_for_delete_populated mappings project_id =
     (let query = filter unmigrated mappings;
          query' = (if str_truthy project_id
                    then filter (\<lambda>m. im_project_id m = the project_id) query else query)
      in query' = [])"

text \<open>
  The module globals \<open>UID_QFD_POPULATED_CACHE_ALL\<close> and
  \<open>UID_QFD_POPULATED_CACHE_BY_PROJECT\<close>, threaded as state. \<open>exists_queries\<close> is a
  counter of the calls of the EXISTS query made so far; it shows whether a call has
  run the query.
\<close>

record gate_cache =
  UID_QFD_POPULATED_CACHE_ALL :: bool
  UID_QFD_POPULATED_CACHE_BY_PROJECT :: "string set"
  exists_queries :: nat

definition is_qfd_populated :: "instance_mapping list \<Rightarrow> gate_cache \<Rightarrow> bool \<times> gate_cache" where
  "is_qfd_populated mappings c =
     (let c' = (if \<not> UID_QFD_POPULATED_CACHE_ALL c
                then c\<lparr>UID_QFD_POPULATED_CACHE_ALL :=
                         user_id_queued_for_delete_populated mappings None,
                       exists_queries := exists_queries c + 1\<rparr>
                else c)
      in (UID_QFD_POPULATED_CACHE_ALL c', c'))"

text \<open>
  A cell's answer in \<open>scatter_gather_cells\<close>: one of the two failure sentinels of
  \<open>nova.context\<close> (no answer in time, or the exception the cell raised), or the dict
  \<open>InstanceList.get_counts\<close> returned. \<open>is_cell_failure_sentinel\<close> is true of the
  first two.
\<close>

datatype cell_result =
    did_not_respond_sentinel
  | raised_exception_sentinel
  | cell_counts "(int dict) dict"

definition is_cell_failure_sentinel :: "cell_result \<Rightarrow> bool" where
  "is_cell_failure_sentinel r = (case r of cell_counts d \<Rightarrow> False | _ \<Rightarrow> True)"

text \<open>What counting reads from outside this module: the option
  \<open>count_usage_from_placement\<close>, the instance mappings of the API database, the answers
  \<open>scatter_gather_cells\<close> collects from the cells it was given (one entry per cell,
  whichever way the cell mappings were chosen), \<open>InstanceMappingList.get_counts\<close> and
  the placement client's \<open>get_usages_counts_for_quota\<close>.\<close>

record counting_env =
  count_usage_from_placement :: bool
  instance_mappings :: "instance_mapping list"
  scatter_gather_cells :: "string \<Rightarrow> string option \<Rightarrow> (string \<times> cell_result) list"
  instance_mapping_get_counts :: "string \<Rightarrow> string option \<Rightarrow> (int dict) dict"
  get_usages_counts_for_quota :: "string \<Rightarrow> string option \<Rightarrow> (int dict) dict"

text \<open>\<open>for resource, count in d.items(): totals[resource] += count\<close>\<close>

fun add_counts :: "int dict \<Rightarrow> int dict \<Rightarrow> error + int dict" where
  "add_counts totals [] = Inr totals"
| "add_counts totals ((res, cnt) # rest) =
     (case dict_get totals res of
        None \<Rightarrow> Inl (KeyError res)
      | Some t \<Rightarrow> add_counts (dict_set totals res (t + cnt)) rest)"

definition zero_counts :: "int dict" where
  "zero_counts = [(''instances'', 0), (''cores'', 0), (''ram'', 0)]"

text \<open>The loop over \<open>results.values()\<close>; the totals are \<open>total_counts['project']\<close>
  and, when \<open>user_id\<close> is set, \<open>total_counts['user']\<close>.\<close>

fun legacy_loop ::
  "bool \<Rightarrow> cell_result list \<Rightarrow> int dict \<Rightarrow> int dict \<Rightarrow> error + (int dict \<times> int dict)" where
  "legacy_loop with_user [] project_total user_total = Inr (project_total, user_total)"
| "legacy_loop with_user (r # rs) project_total user_total =
     (case r of
        cell_counts d \<Rightarrow>
          (case dict_get d ''project'' of
             None \<Rightarrow> Inl (KeyError ''project'')
           | Some pc \<Rightarrow>
               (case add_counts project_total pc of
                  Inl err \<Rightarrow> Inl err
                | Inr project_total' \<Rightarrow>
                    if with_user then
                      (case dict_get d ''user'' of
                         None \<Rightarrow> Inl (KeyError ''user'')
                       | Some uc \<Rightarrow>
                           (case add_counts user_total uc of
                              Inl err \<Rightarrow> Inl err
                            | Inr user_total' \<Rightarrow>
                                legacy_loop with_user rs project_total' user_total'))
                    else legacy_loop with_user rs project_total' user_total))
      | _ \<Rightarrow> legacy_loop with_user rs project_total user_total)"

definition instances_cores_ram_count_legacy ::
  "counting_env \<Rightarrow> string \<Rightarrow> string option \<Rightarrow> error + (int dict) dict" where
  "instances_cores_ram_count_legacy ce project_id user_id =
     (let results = scatter_gather_cells ce project_id user_id
      in case legacy_loop (str_truthy user_id) (map snd results) zero_counts zero_counts of
           Inl err \<Rightarrow> Inl err
         | Inr (project_total, user_total) \<Rightarrow>
             Inr ((''project'', project_total)
                  # (if str_truthy user_id then [(''user'', user_total)] else [])))"

definition dict_update :: "'v dict \<Rightarrow> 'v dict \<Rightarrow> 'v dict" where
  "dict_update d other = foldl (\<lambda>m kv. dict_set m (fst kv) (snd kv)) d other"

definition instances_cores_ram_count_api_db_placement ::
  "counting_env \<Rightarrow> string \<Rightarrow> string option \<Rightarrow> error + (int dict) dict" where
  "instances_cores_ram_count_api_db_placement ce project_id user_id =
     (let total_counts = instance_mapping_get_counts ce project_id user_id;
          cores_ram_counts = get_usages_counts_for_quota ce project_id user_id
      in case dict_get total_counts ''project'' of
           None \<Rightarrow> Inl (KeyError ''project'')
         | Some tp \<Rightarrow>
             (case dict_get cores_ram_counts ''project'' of
                None \<Rightarrow> Inl (KeyError ''project'')
              | Some cp \<Rightarrow>
                  (let total1 = dict_set total_counts ''project'' (dict_update tp cp)
                   in case dict_get total1 ''user'' of
                        None \<Rightarrow> Inr total1
                      | Some tu \<Rightarrow>
                          (case dict_get cores_ram_counts ''user'' of
                             None \<Rightarrow> Inl (KeyError ''user'')
                           | Some cu \<Rightarrow>
                               Inr (dict_set total1 ''user'' (dict_update tu cu))))))"

text \<open>\<open>_instances_cores_ram_count\<close>: the per-project gate, then one of the two
  backends.\<close>

definition project_gate :: "counting_env \<Rightarrow> gate_cache \<Rightarrow> string \<Rightarrow> bool \<times> gate_cache" where
  "project_gate ce c project_id =
     (if \<not> UID_QFD_POPULATED_CACHE_ALL c
         \<and> project_id \<notin> UID_QFD_POPULATED_CACHE_BY_PROJECT c
      then
        (let uid_qfd_populated =
               user_id_queued_for_delete_populated (instance_mappings ce) (Some project_id)
         in (uid_qfd_populated,
             c\<lparr>UID_QFD_POPULATED_CACHE_BY_PROJECT :=
                  (if uid_qfd_populated
                   then insert project_id (UID_QFD_POPULATED_CACHE_BY_PROJECT c)
                   else UID_QFD_POPULATED_CACHE_BY_PROJECT c),
               exists_queries := exists_queries c + 1\<rparr>))
      else (True, c))"

definition instances_cores_ram_count ::
  "counting_env \<Rightarrow> gate_cache \<Rightarrow> string \<Rightarrow> string option
   \<Rightarrow> (error + (int dict) dict) \<times> gate_cache" where
  "instances_cores_ram_count ce c project_id user_id =
     (if count_usage_from_placement ce then
        (case project_gate ce c project_id of
           (uid_qfd_populated, c') \<Rightarrow>
             if uid_qfd_populated
             then (instances_cores_ram_count_api_db_placement ce project_id user_id, c')
             else (instances_cores_ram_count_legacy ce project_id user_id, c'))
      else (instances_cores_ram_count_legacy ce project_id user_id, c))"

text \<open>
  The shape \<open>InstanceList.get_counts\<close> gives a cell's answer: a \<open>'project'\<close> dict,
  and a \<open>'user'\<close> dict when a user id was passed, each with distinct keys among
  instances, cores and ram. \<open>scope_count\<close> reads one count out of an answer.
\<close>

definition counts_ok :: "int dict \<Rightarrow> bool" where
  "counts_ok d = (distinct (dict_keys d) \<and> set (dict_keys d) \<subseteq> set (dict_keys zero_counts))"

definition cell_result_ok :: "bool \<Rightarrow> cell_result \<Rightarrow> bool" where
  "cell_result_ok with_user r =
     (case r of
        cell_counts d \<Rightarrow>
          (case dict_get d ''project'' of None \<Rightarrow> False | Some pc \<Rightarrow> counts_ok pc)
          \<and> (with_user \<longrightarrow>
                (case dict_get d ''user'' of None \<Rightarrow> False | Some uc \<Rightarrow> counts_ok uc))
      | _ \<Rightarrow> True)"

definition scope_count :: "string \<Rightarrow> string \<Rightarrow> cell_result \<Rightarrow> int" where
  "scope_count scope res r =
     (case r of cell_counts d \<Rightarrow> dict_get_or (dict_get_or d scope []) res 0 | _ \<Rightarrow> 0)"

definition responding :: "cell_result list \<Rightarrow> cell_result list" where
  "responding rs = filter (\<lambda>r. \<not> is_cell_failure_sentinel r) rs"

text \<open>
  The later life of the process, as far as the cache goes: any sequence of calls of the
  two functions that write it, each call seeing whatever the database holds at its time.
\<close>

datatype gate_call =
    Call_is_qfd_populated "instance_mapping list"
  | Call_instances_cores_ram_count counting_env string "string option"

fun run_call :: "gate_cache \<Rightarrow> gate_call \<Rightarrow> gate_cache" where
  "run_call c (Call_is_qfd_populated mappings) = snd (is_qfd_populated mappings c)"
| "run_call c (Call_instances_cores_ram_count ce project_id user_id) =
     snd (instances_cores_ram_count ce c project_id user_id)"

definition run_calls :: "gate_cache \<Rightarrow> gate_call list \<Rightarrow> gate_cache" where
  "run_calls c calls = foldl run_call c calls"

section \<open>A small deployment for the examples\<close>

text \<open>
  One project and one user, the registry \<open>QUOTAS\<close> with counting functions that
  report 18 cores, 9 instances and 2048 MB of ram in use by the project (6, 3 and 512 by
  the user) and two server groups (one of them the user's), no quota classes, and the
  configured defaults 10 instances, 20 cores and unlimited for the rest. The stored
  per-project and per-user overrides and the rows of \<open>Quotas.get_all\<close> vary from
  example to example.
\<close>

definition example_counts :: "string \<Rightarrow> string option \<Rightarrow> (int dict) dict" where
  "example_counts project_id user_id =
     (''project'', [(''instances'', 9), (''cores'', 18), (''ram'', 2048)])
     # (if str_truthy user_id
        then [(''user'', [(''instances'', 3), (''cores'', 6), (''ram'', 512)])] else [])"

definition example_group_counts :: "string \<Rightarrow> string option \<Rightarrow> (int dict) dict" where
  "example_group_counts project_id user_id =
     (''project'', [(''server_groups'', 2)])
     # (if str_truthy user_id then [(''user'', [(''server_groups'', 1)])] else [])"

definition example_registry :: "resource dict" where
  "example_registry =
     QUOTAS example_counts (\<lambda>p u. [(''user'', [(''key_pairs'', 1)])]) example_group_counts
       (\<lambda>p u. [(''user'', [(''server_group_members'', 0)])])"

text \<open>A registry with the cores resource alone, for the examples on settable quotas.\<close>

definition cores_registry :: "resource dict" where
  "cores_registry =
     QuotaEngine [\<lparr>res_class = CountableResource, name = ''cores'', flag = Some ''cores'',
                   count_as_dict = example_counts\<rparr>]"

definition example_env :: "int dict \<Rightarrow> int dict \<Rightarrow> (string \<times> int) list \<Rightarrow> env" where
  "example_env project_overrides user_overrides user_rows =
     \<lparr>conf_quota = (\<lambda>f. if f = ''instances'' then 10 else if f = ''cores'' then 20 else - 1),
      get_default_class = [],
      get_all_class_by_name = (\<lambda>c. []),
      get_all_by_project = (\<lambda>p. project_overrides),
      get_all_by_project_and_user = (\<lambda>p u. user_overrides),
      get_all = (\<lambda>p. user_rows),
      quota_get_per_project_resources = [''fixed_ips'', ''floating_ips'', ''networks'']\<rparr>"

definition example_context :: request_context where
  "example_context =
     \<lparr>ctx_project_id = ''project-1'', ctx_user_id = Some ''user-1'', ctx_quota_class = None\<rparr>"

section \<open>Theorems\<close>

subsection \<open>Dictionaries\<close>

lemma dict_get_dict_set:
  "dict_get (dict_set d k v) k' = (if k' = k then Some v else dict_get d k')"
  by (simp add: dict_get_def dict_set_def update_conv')

lemma set_dict_keys_dict_set:
  "set (dict_keys (dict_set d k v)) = insert k (set (dict_keys d))"
  by (simp add: dict_keys_def dict_set_def dom_update)

lemma distinct_dict_keys_dict_set:
  "distinct (dict_keys d) \<Longrightarrow> distinct (dict_keys (dict_set d k v))"
  by (simp add: dict_keys_def dict_set_def distinct_update)

subsection \<open>The registry\<close>

lemma dict_get_QuotaEngine_fold:
  "dict_get (foldl (\<lambda>d r. dict_set d (name r) r) d0 rs) n =
     (case filter (\<lambda>r. name r = n) rs of [] \<Rightarrow> dict_get d0 n | x # xs \<Rightarrow> Some (last (x # xs)))"
proof (induction rs arbitrary: d0)
  case Nil
  then show ?case by simp
next
  case (Cons r rs)
  show ?case
  proof (cases "filter (\<lambda>r. name r = n) rs")
    case Nil
    then show ?thesis
      using Cons.IH [of "dict_set d0 (name r) r"] by (auto simp: dict_get_dict_set)
  next
    case (Cons y ys)
    then show ?thesis
      using Cons.IH [of "dict_set d0 (name r) r"] by simp
  qed
qed

lemma keys_QuotaEngine_fold:
  "set (dict_keys (foldl (\<lambda>d r. dict_set d (name r) r) d0 rs)) = set (dict_keys d0) \<union> name ` set rs"
  by (induction rs arbitrary: d0) (auto simp: set_dict_keys_dict_set)

lemma distinct_QuotaEngine_fold:
  "distinct (dict_keys d0) \<Longrightarrow> distinct (dict_keys (foldl (\<lambda>d r. dict_set d (name r) r) d0 rs))"
  by (induction rs arbitrary: d0) (auto simp: distinct_dict_keys_dict_set)

subsection \<open>Quota arithmetic\<close>

text \<open>
  C4. For all integers a and b, \<open>_sum_quota_values\<close> and \<open>_sub_quota_values\<close> return
  the Unlimited sentinel -1 whenever an operand is at most -1, and a + b, a - b
  otherwise. The sum does not depend on the order of its operands; the difference does
  (3 and 1 give 2 one way and -2 the other).
\<close>

theorem quota_values_arithmetic:
  "(if a \<le> -1 \<or> b \<le> -1
    then sum_quota_values a b = -1 \<and> sub_quota_values a b = -1
    else sum_quota_values a b = a + b \<and> sub_quota_values a b = a - b)
   \<and> sum_quota_values a b = sum_quota_values b a
   \<and> sub_quota_values 3 1 \<noteq> sub_quota_values 1 3"
  by (simp add: sum_quota_values_def sub_quota_values_def is_unlimited_value_def
      UNLIMITED_VALUE_def disj_commute add.commute)

theorem quota_values_arithmetic_witness:
  "sum_quota_values 5 (-1) = -1 \<and> sub_quota_values (-3) 4 = -1
   \<and> sum_quota_values 2 3 = 5 \<and> sub_quota_values 7 3 = 4
   \<and> sub_quota_values 3 1 = 2 \<and> sub_quota_values 1 3 = -2"
  using quota_values_arithmetic [of 5 "-1"] quota_values_arithmetic [of "-3" 4]
    quota_values_arithmetic [of 2 3] quota_values_arithmetic [of 7 3]
    quota_values_arithmetic [of 3 1]
    quota_values_arithmetic [of 1 3]
  by simp

subsection \<open>Construction of the registry\<close>

text \<open>
  C9, as the code has it. \<open>QuotaEngine.__init__\<close> builds the registry with a dict
  comprehension and has no check for repeated names: construction always succeeds, the
  registry holds each name once, and a name given several times is bound to the last
  descriptor that bears it.
\<close>

theorem QuotaEngine_last_registration_wins:
  "dict_get (QuotaEngine rs) n =
     (case filter (\<lambda>r. name r = n) rs of [] \<Rightarrow> None | x # xs \<Rightarrow> Some (last (x # xs)))
   \<and> distinct (dict_keys (QuotaEngine rs))
   \<and> set (dict_keys (QuotaEngine rs)) = name ` set rs"
proof -
  have "dict_get ([] :: resource dict) n = None" by (simp add: dict_get_def)
  moreover have "distinct (dict_keys ([] :: resource dict))" by (simp add: dict_keys_def)
  moreover have "set (dict_keys ([] :: resource dict)) = {}" by (simp add: dict_keys_def)
  ultimately show ?thesis
    unfolding QuotaEngine_def
    using dict_get_QuotaEngine_fold [of "[]" rs n] keys_QuotaEngine_fold [of "[]" rs]
      distinct_QuotaEngine_fold [of "[]" rs]
    by (simp split: list.splits)
qed

text \<open>
  C9 as stated fails: two descriptors named \<open>fixed_ips\<close> are accepted, and the
  registry holds the second one.
\<close>

theorem QuotaEngine_duplicate_counterexample:
  "QuotaEngine
     [\<lparr>res_class = AbsoluteResource, name = ''fixed_ips'', flag = Some ''first'',
       count_as_dict = (\<lambda>p u. [])\<rparr>,
      \<lparr>res_class = AbsoluteResource, name = ''fixed_ips'', flag = Some ''second'',
       count_as_dict = (\<lambda>p u. [])\<rparr>]
   = [(''fixed_ips'',
       \<lparr>res_class = AbsoluteResource, name = ''fixed_ips'', flag = Some ''second'',
        count_as_dict = (\<lambda>p u. [])\<rparr>)]"
  by (simp add: QuotaEngine_def dict_set_def)

subsection \<open>The migration-gate cache\<close>

lemma is_qfd_populated_cached:
  "UID_QFD_POPULATED_CACHE_ALL c \<Longrightarrow> is_qfd_populated mappings c = (True, c)"
  by (simp add: is_qfd_populated_def)

lemma project_gate_cached:
  "UID_QFD_POPULATED_CACHE_ALL c \<or> p \<in> UID_QFD_POPULATED_CACHE_BY_PROJECT c
   \<Longrightarrow> project_gate ce c p = (True, c)"
  by (auto simp: project_gate_def)

lemma run_call_monotonic:
  "(UID_QFD_POPULATED_CACHE_ALL c \<longrightarrow> UID_QFD_POPULATED_CACHE_ALL (run_call c call))
   \<and> UID_QFD_POPULATED_CACHE_BY_PROJECT c \<subseteq> UID_QFD_POPULATED_CACHE_BY_PROJECT (run_call c call)"
proof (cases call)
  case (Call_is_qfd_populated mappings)
  then show ?thesis by (simp add: is_qfd_populated_def Let_def)
next
  case (Call_instances_cores_ram_count ce p u)
  then show ?thesis
    by (auto simp: instances_cores_ram_count_def project_gate_def Let_def split: prod.splits if_splits)
qed

lemma run_calls_monotonic:
  "(UID_QFD_POPULATED_CACHE_ALL c \<longrightarrow> UID_QFD_POPULATED_CACHE_ALL (run_calls c calls))
   \<and> UID_QFD_POPULATED_CACHE_BY_PROJECT c \<subseteq> UID_QFD_POPULATED_CACHE_BY_PROJECT (run_calls c calls)"
  unfolding run_calls_def
proof (induction calls arbitrary: c)
  case Nil
  then show ?case by simp
next
  case (Cons call calls)
  show ?case
    using Cons.IH [of "run_call c call"] run_call_monotonic [of c call] by auto
qed

text \<open>
  C6. The migration-gate cache is monotonic and memoizing. When \<open>is_qfd_populated\<close>
  returns true it has recorded true. Whatever calls follow, and whatever the database
  holds when they run (\<open>calls\<close>, \<open>mappings\<close>, \<open>ce\<close> are arbitrary): a global
  cache that is true stays true, and \<open>is_qfd_populated\<close> then returns true leaving the
  state, with its count of EXISTS queries, as it was; no project leaves the per-project
  cache; and for a project that is cached (or with the global cache true) the gate of
  \<open>_instances_cores_ram_count\<close> yields true without a query, so that the function,
  when counting from placement is configured, takes the placement path.
\<close>

theorem migration_gate_cache_monotonic:
  "(fst (is_qfd_populated mappings0 c) \<longrightarrow>
      UID_QFD_POPULATED_CACHE_ALL (snd (is_qfd_populated mappings0 c)))
   \<and> (UID_QFD_POPULATED_CACHE_ALL c \<longrightarrow>
        UID_QFD_POPULATED_CACHE_ALL (run_calls c calls)
        \<and> is_qfd_populated mappings (run_calls c calls) = (True, run_calls c calls))
   \<and> UID_QFD_POPULATED_CACHE_BY_PROJECT c
        \<subseteq> UID_QFD_POPULATED_CACHE_BY_PROJECT (run_calls c calls)
   \<and> (UID_QFD_POPULATED_CACHE_ALL c \<or> p \<in> UID_QFD_POPULATED_CACHE_BY_PROJECT c \<longrightarrow>
        project_gate ce (run_calls c calls) p = (True, run_calls c calls)
        \<and> (count_usage_from_placement ce \<longrightarrow>
             instances_cores_ram_count ce (run_calls c calls) p u =
               (instances_cores_ram_count_api_db_placement ce p u, run_calls c calls)))"
proof -
  have mono: "(UID_QFD_POPULATED_CACHE_ALL c \<longrightarrow> UID_QFD_POPULATED_CACHE_ALL (run_calls c calls))
      \<and> UID_QFD_POPULATED_CACHE_BY_PROJECT c
           \<subseteq> UID_QFD_POPULATED_CACHE_BY_PROJECT (run_calls c calls)"
    by (rule run_calls_monotonic)
  have first: "fst (is_qfd_populated mappings0 c) \<longrightarrow>
      UID_QFD_POPULATED_CACHE_ALL (snd (is_qfd_populated mappings0 c))"
    by (simp add: is_qfd_populated_def Let_def)
  have glob: "UID_QFD_POPULATED_CACHE_ALL c \<longrightarrow>
      is_qfd_populated mappings (run_calls c calls) = (True, run_calls c calls)"
    using mono is_qfd_populated_cached by blast
  have gate: "UID_QFD_POPULATED_CACHE_ALL c \<or> p \<in> UID_QFD_POPULATED_CACHE_BY_PROJECT c \<longrightarrow>
      project_gate ce (run_calls c calls) p = (True, run_calls c calls)"
    using mono project_gate_cached [of "run_calls c calls" p ce] by blast
  have cnt: "UID_QFD_POPULATED_CACHE_ALL c \<or> p \<in> UID_QFD_POPULATED_CACHE_BY_PROJECT c \<longrightarrow>
      count_usage_from_placement ce \<longrightarrow>
        instances_cores_ram_count ce (run_calls c calls) p u =
          (instances_cores_ram_count_api_db_placement ce p u, run_calls c calls)"
    using gate by (simp add: instances_cores_ram_count_def)
  show ?thesis using mono first glob gate cnt by blast
qed

text \<open>
  At concrete inputs: the first call finds every row migrated, runs one query and caches
  true; a later call, after the database has gained an unmigrated row, still answers
  true with the query count unchanged; and a project in the per-project cache passes the
  gate without a query even though the global check has just failed.
\<close>

theorem migration_gate_cache_monotonic_witness:
  "is_qfd_populated
     [\<lparr>im_project_id = ''p1'', im_user_id = Some ''u1'', im_queued_for_delete = Some False\<rparr>]
     \<lparr>UID_QFD_POPULATED_CACHE_ALL = False, UID_QFD_POPULATED_CACHE_BY_PROJECT = {},
      exists_queries = 0\<rparr>
   = (True, \<lparr>UID_QFD_POPULATED_CACHE_ALL = True, UID_QFD_POPULATED_CACHE_BY_PROJECT = {},
             exists_queries = 1\<rparr>)
   \<and> is_qfd_populated
       [\<lparr>im_project_id = ''p1'', im_user_id = None, im_queued_for_delete = None\<rparr>]
       (run_calls
          \<lparr>UID_QFD_POPULATED_CACHE_ALL = True, UID_QFD_POPULATED_CACHE_BY_PROJECT = {},
           exists_queries = 1\<rparr>
          [Call_is_qfd_populated
             [\<lparr>im_project_id = ''p1'', im_user_id = None, im_queued_for_delete = None\<rparr>]])
     = (True, \<lparr>UID_QFD_POPULATED_CACHE_ALL = True, UID_QFD_POPULATED_CACHE_BY_PROJECT = {},
               exists_queries = 1\<rparr>)
   \<and> project_gate
       \<lparr>count_usage_from_placement = True,
        instance_mappings =
          [\<lparr>im_project_id = ''p1'', im_user_id = None, im_queued_for_delete = None\<rparr>],
        scatter_gather_cells = (\<lambda>p u. []),
        instance_mapping_get_counts = (\<lambda>p u. []),
        get_usages_counts_for_quota = (\<lambda>p u. [])\<rparr>
       (run_calls
          \<lparr>UID_QFD_POPULATED_CACHE_ALL = False, UID_QFD_POPULATED_CACHE_BY_PROJECT = {''p1''},
           exists_queries = 1\<rparr>
          [Call_is_qfd_populated
             [\<lparr>im_project_id = ''p1'', im_user_id = None, im_queued_for_delete = None\<rparr>]])
       ''p1''
     = (True, \<lparr>UID_QFD_POPULATED_CACHE_ALL = False,
               UID_QFD_POPULATED_CACHE_BY_PROJECT = {''p1''}, exists_queries = 2\<rparr>)"
  using migration_gate_cache_monotonic
      [of "[\<lparr>im_project_id = ''p1'', im_user_id = Some ''u1'', im_queued_for_delete = Some False\<rparr>]"
          "\<lparr>UID_QFD_POPULATED_CACHE_ALL = False, UID_QFD_POPULATED_CACHE_BY_PROJECT = {},
            exists_queries = 0\<rparr>" "[]"]
    migration_gate_cache_monotonic
      [of "[]"
          "\<lparr>UID_QFD_POPULATED_CACHE_ALL = True, UID_QFD_POPULATED_CACHE_BY_PROJECT = {},
            exists_queries = 1\<rparr>"
          "[Call_is_qfd_populated
             [\<lparr>im_project_id = ''p1'', im_user_id = None, im_queued_for_delete = None\<rparr>]]"
          "[\<lparr>im_project_id = ''p1'', im_user_id = None, im_queued_for_delete = None\<rparr>]"]
    migration_gate_cache_monotonic
      [of "[]"
          "\<lparr>UID_QFD_POPULATED_CACHE_ALL = False, UID_QFD_POPULATED_CACHE_BY_PROJECT = {''p1''},
            exists_queries = 1\<rparr>"
          "[Call_is_qfd_populated
             [\<lparr>im_project_id = ''p1'', im_user_id = None, im_queued_for_delete = None\<rparr>]]"
          "[]" "''p1''"]
  by (simp add: is_qfd_populated_def user_id_queued_for_delete_populated_def unmigrated_def
      str_truthy_def run_calls_def project_gate_def)

subsection \<open>The legacy count across cells\<close>

lemma dict_keys_dict_set_present:
  "k \<in> set (dict_keys d) \<Longrightarrow> dict_keys (dict_set d k v) = dict_keys d"
  by (simp add: dict_keys_def dict_set_def update_keys)

lemma dict_get_None_iff: "dict_get d k = None \<longleftrightarrow> k \<notin> set (dict_keys d)"
  by (simp add: dict_get_def dict_keys_def map_of_eq_None_iff)

lemma dict_get_or_Cons:
  "dict_get_or ((k, v) # d) k' dflt = (if k' = k then v else dict_get_or d k' dflt)"
  by (simp add: dict_get_or_def)

lemma dict_get_or_absent: "k \<notin> set (dict_keys d) \<Longrightarrow> dict_get_or d k dflt = dflt"
  by (simp add: dict_get_or_def dict_keys_def map_of_eq_None_iff [THEN iffD2])

lemma add_counts_total:
  "set (dict_keys d) \<subseteq> set (dict_keys t0) \<Longrightarrow> distinct (dict_keys d) \<Longrightarrow>
   \<exists>t. add_counts t0 d = Inr t \<and> dict_keys t = dict_keys t0
       \<and> (\<forall>res. dict_get t res = map_option (\<lambda>x. x + dict_get_or d res 0) (dict_get t0 res))"
proof (induction d arbitrary: t0)
  case Nil
  show ?case by (simp add: dict_get_or_def option.map_ident)
next
  case (Cons kc rest)
  obtain k c where kc: "kc = (k, c)" by (cases kc)
  from Cons.prems kc have kin: "k \<in> set (dict_keys t0)" by (simp add: dict_keys_def)
  then obtain x where x: "dict_get t0 k = Some x"
    using dict_get_None_iff [of t0 k] by (cases "dict_get t0 k") auto
  let ?t1 = "dict_set t0 k (x + c)"
  have keys1: "dict_keys ?t1 = dict_keys t0" using kin by (rule dict_keys_dict_set_present)
  from Cons.prems kc have sub0: "set (dict_keys rest) \<subseteq> set (dict_keys t0)"
    and dist: "distinct (dict_keys rest)" and knot: "k \<notin> set (dict_keys rest)"
    by (auto simp: dict_keys_def)
  from sub0 have sub: "set (dict_keys rest) \<subseteq> set (dict_keys ?t1)"
    by (simp only: keys1)
  from Cons.IH [OF sub dist] obtain t where t: "add_counts ?t1 rest = Inr t"
    "dict_keys t = dict_keys ?t1"
    "\<forall>res. dict_get t res = map_option (\<lambda>y. y + dict_get_or rest res 0) (dict_get ?t1 res)"
    by blast
  have "add_counts t0 (kc # rest) = Inr t" using kc x t(1) by simp
  moreover have "dict_keys t = dict_keys t0" using t(2) keys1 by simp
  moreover have "\<forall>res. dict_get t res =
      map_option (\<lambda>y. y + dict_get_or (kc # rest) res 0) (dict_get t0 res)"
  proof
    fix res
    show "dict_get t res = map_option (\<lambda>y. y + dict_get_or (kc # rest) res 0) (dict_get t0 res)"
      using t(3) [rule_format, of res] x knot kc
      by (cases "res = k") (simp_all add: dict_get_dict_set dict_get_or_Cons dict_get_or_absent)
  qed
  ultimately show ?case by blast
qed


lemma legacy_loop_total:
  "\<forall>r \<in> set rs. cell_result_ok w r \<Longrightarrow>
   dict_keys pt0 = dict_keys zero_counts \<Longrightarrow> dict_keys ut0 = dict_keys zero_counts \<Longrightarrow>
   \<exists>pt ut. legacy_loop w rs pt0 ut0 = Inr (pt, ut)
     \<and> (\<forall>res. dict_get pt res =
            map_option (\<lambda>x. x + sum_list (map (scope_count ''project'' res) (responding rs)))
              (dict_get pt0 res))
     \<and> (\<forall>res. dict_get ut res =
            map_option (\<lambda>x. x + (if w then sum_list (map (scope_count ''user'' res) (responding rs))
                                  else 0))
              (dict_get ut0 res))"
proof (induction rs arbitrary: pt0 ut0)
  case Nil
  show ?case by (simp add: responding_def option.map_ident)
next
  case (Cons r rs)
  from Cons.prems have oks: "\<forall>r \<in> set rs. cell_result_ok w r" and okr: "cell_result_ok w r"
    by simp_all
  show ?case
  proof (cases r)
    case did_not_respond_sentinel
    then have "responding (r # rs) = responding rs"
      and "legacy_loop w (r # rs) pt0 ut0 = legacy_loop w rs pt0 ut0"
      by (simp_all add: responding_def is_cell_failure_sentinel_def)
    then show ?thesis
      using Cons.IH [OF oks Cons.prems(2) Cons.prems(3)] by (simp only:)
  next
    case raised_exception_sentinel
    then have "responding (r # rs) = responding rs"
      and "legacy_loop w (r # rs) pt0 ut0 = legacy_loop w rs pt0 ut0"
      by (simp_all add: responding_def is_cell_failure_sentinel_def)
    then show ?thesis
      using Cons.IH [OF oks Cons.prems(2) Cons.prems(3)] by (simp only:)
  next
    case (cell_counts d)
    from okr cell_counts obtain pc where pc: "dict_get d ''project'' = Some pc" "counts_ok pc"
      by (auto simp: cell_result_ok_def split: option.splits)
    from pc(2) Cons.prems(2) have "set (dict_keys pc) \<subseteq> set (dict_keys pt0)"
      "distinct (dict_keys pc)" by (simp_all add: counts_ok_def)
    from add_counts_total [OF this] obtain pt1 where pt1: "add_counts pt0 pc = Inr pt1"
      "dict_keys pt1 = dict_keys pt0"
      "\<forall>res. dict_get pt1 res = map_option (\<lambda>x. x + dict_get_or pc res 0) (dict_get pt0 res)"
      by blast
    have kp1: "dict_keys pt1 = dict_keys zero_counts" using pt1(2) Cons.prems(2) by simp
    have scp: "\<And>res. scope_count ''project'' res r = dict_get_or pc res 0"
      using cell_counts pc(1) by (simp add: scope_count_def dict_get_or_def dict_get_def)
    have resp: "responding (r # rs) = r # responding rs"
      using cell_counts by (simp add: responding_def is_cell_failure_sentinel_def)
    show ?thesis
    proof (cases w)
      case False
      from Cons.IH [OF oks kp1 Cons.prems(3)] obtain pt ut where
        l: "legacy_loop w rs pt1 ut0 = Inr (pt, ut)"
        and p: "\<forall>res. dict_get pt res =
            map_option (\<lambda>x. x + sum_list (map (scope_count ''project'' res) (responding rs)))
              (dict_get pt1 res)"
        and u: "\<forall>res. dict_get ut res =
            map_option (\<lambda>x. x + (if w then sum_list (map (scope_count ''user'' res) (responding rs))
                                  else 0))
              (dict_get ut0 res)"
        by blast
      have "legacy_loop w (r # rs) pt0 ut0 = Inr (pt, ut)"
        using cell_counts pc(1) pt1(1) False l by simp
      moreover have "\<forall>res. dict_get pt res =
            map_option (\<lambda>x. x + sum_list (map (scope_count ''project'' res) (responding (r # rs))))
              (dict_get pt0 res)"
        using p pt1(3) by (simp add: resp scp option.map_comp comp_def add.assoc)
      moreover have "\<forall>res. dict_get ut res =
            map_option (\<lambda>x. x + (if w then sum_list (map (scope_count ''user'' res) (responding (r # rs)))
                                  else 0))
              (dict_get ut0 res)"
        using u False by simp
      ultimately show ?thesis by blast
    next
      case True
      from okr cell_counts True obtain uc where uc: "dict_get d ''user'' = Some uc" "counts_ok uc"
        by (auto simp: cell_result_ok_def split: option.splits)
      from uc(2) Cons.prems(3) have "set (dict_keys uc) \<subseteq> set (dict_keys ut0)"
        "distinct (dict_keys uc)" by (simp_all add: counts_ok_def)
      from add_counts_total [OF this] obtain ut1 where ut1: "add_counts ut0 uc = Inr ut1"
        "dict_keys ut1 = dict_keys ut0"
        "\<forall>res. dict_get ut1 res = map_option (\<lambda>x. x + dict_get_or uc res 0) (dict_get ut0 res)"
        by blast
      have ku1: "dict_keys ut1 = dict_keys zero_counts" using ut1(2) Cons.prems(3) by simp
      have scu: "\<And>res. scope_count ''user'' res r = dict_get_or uc res 0"
        using cell_counts uc(1) by (simp add: scope_count_def dict_get_or_def dict_get_def)
      from Cons.IH [OF oks kp1 ku1] obtain pt ut where
        l: "legacy_loop w rs pt1 ut1 = Inr (pt, ut)"
        and p: "\<forall>res. dict_get pt res =
            map_option (\<lambda>x. x + sum_list (map (scope_count ''project'' res) (responding rs)))
              (dict_get pt1 res)"
        and u: "\<forall>res. dict_get ut res =
            map_option (\<lambda>x. x + (if w then sum_list (map (scope_count ''user'' res) (responding rs))
                                  else 0))
              (dict_get ut1 res)"
        by blast
      have "legacy_loop w (r # rs) pt0 ut0 = Inr (pt, ut)"
        using cell_counts pc(1) pt1(1) uc(1) ut1(1) True l by simp
      moreover have "\<forall>res. dict_get pt res =
            map_option (\<lambda>x. x + sum_list (map (scope_count ''project'' res) (responding (r # rs))))
              (dict_get pt0 res)"
        using p pt1(3) by (simp add: resp scp option.map_comp comp_def add.assoc)
      moreover have "\<forall>res. dict_get ut res =
            map_option (\<lambda>x. x + (if w then sum_list (map (scope_count ''user'' res) (responding (r # rs)))
                                  else 0))
              (dict_get ut0 res)"
        using u ut1(3) True by (simp add: resp scu option.map_comp comp_def add.assoc)
      ultimately show ?thesis by blast
    qed
  qed
qed

lemma dict_get_zero_counts:
  "res \<in> set [''instances'', ''cores'', ''ram''] \<Longrightarrow> dict_get zero_counts res = Some 0"
  by (auto simp: zero_counts_def dict_get_def)

text \<open>
  C8. The legacy count of instances, cores and ram does not raise on a failed cell, and
  a failed cell adds nothing: whenever every cell that answered gave counts of the shape
  \<open>InstanceList.get_counts\<close> returns, \<open>_instances_cores_ram_count_legacy\<close> returns
  the totals, and each total is the sum over the cells that answered (\<open>responding\<close>
  drops the failure sentinels), at project scope and, when a user id is given, at user
  scope.
\<close>

theorem legacy_count_skips_failed_cells:
  assumes ok: "\<forall>r \<in> set (map snd (scatter_gather_cells ce p u)). cell_result_ok (str_truthy u) r"
  shows "\<exists>pt ut.
      instances_cores_ram_count_legacy ce p u =
        Inr ((''project'', pt) # (if str_truthy u then [(''user'', ut)] else []))
      \<and> (\<forall>res \<in> set [''instances'', ''cores'', ''ram''].
            dict_get pt res =
              Some (sum_list (map (scope_count ''project'' res)
                      (responding (map snd (scatter_gather_cells ce p u)))))
            \<and> (str_truthy u \<longrightarrow>
                 dict_get ut res =
                   Some (sum_list (map (scope_count ''user'' res)
                           (responding (map snd (scatter_gather_cells ce p u)))))))"
proof -
  let ?rs = "map snd (scatter_gather_cells ce p u)"
  from legacy_loop_total [OF ok refl refl] obtain pt ut where
    l: "legacy_loop (str_truthy u) ?rs zero_counts zero_counts = Inr (pt, ut)"
    and pr: "\<forall>res. dict_get pt res =
        map_option (\<lambda>x. x + sum_list (map (scope_count ''project'' res) (responding ?rs)))
          (dict_get zero_counts res)"
    and us: "\<forall>res. dict_get ut res =
        map_option (\<lambda>x. x + (if str_truthy u
                               then sum_list (map (scope_count ''user'' res) (responding ?rs))
                               else 0))
          (dict_get zero_counts res)"
    by blast
  have "instances_cores_ram_count_legacy ce p u =
      Inr ((''project'', pt) # (if str_truthy u then [(''user'', ut)] else []))"
    using l by (simp add: instances_cores_ram_count_legacy_def)
  moreover have "\<forall>res \<in> set [''instances'', ''cores'', ''ram''].
      dict_get pt res = Some (sum_list (map (scope_count ''project'' res) (responding ?rs)))
      \<and> (str_truthy u \<longrightarrow>
           dict_get ut res = Some (sum_list (map (scope_count ''user'' res) (responding ?rs))))"
  proof
    fix res assume r: "res \<in> set [''instances'', ''cores'', ''ram'']"
    show "dict_get pt res = Some (sum_list (map (scope_count ''project'' res) (responding ?rs)))
      \<and> (str_truthy u \<longrightarrow>
           dict_get ut res = Some (sum_list (map (scope_count ''user'' res) (responding ?rs))))"
      using pr [rule_format, of res] us [rule_format, of res] dict_get_zero_counts [OF r]
      by simp
  qed
  ultimately show ?thesis by blast
qed

text \<open>Three cells, the second of which did not respond: the totals are those of the
  first and the third.\<close>

theorem legacy_count_skips_failed_cells_witness:
  "instances_cores_ram_count_legacy
     \<lparr>count_usage_from_placement = False, instance_mappings = [],
      scatter_gather_cells = (\<lambda>p u.
        [(''cell1'', cell_counts [(''project'', [(''instances'', 1), (''cores'', 2), (''ram'', 512)]),
                                  (''user'', [(''instances'', 1), (''cores'', 2), (''ram'', 512)])]),
         (''cell2'', did_not_respond_sentinel),
         (''cell3'', cell_counts [(''project'', [(''instances'', 2), (''cores'', 4), (''ram'', 1024)]),
                                  (''user'', [(''instances'', 0), (''cores'', 0), (''ram'', 0)])])]),
      instance_mapping_get_counts = (\<lambda>p u. []),
      get_usages_counts_for_quota = (\<lambda>p u. [])\<rparr>
     ''project-1'' (Some ''user-1'')
   = Inr [(''project'', [(''instances'', 3), (''cores'', 6), (''ram'', 1536)]),
          (''user'', [(''instances'', 1), (''cores'', 2), (''ram'', 512)])]"
proof -
  let ?ce = "\<lparr>count_usage_from_placement = False, instance_mappings = [],
      scatter_gather_cells = (\<lambda>p u.
        [(''cell1'', cell_counts [(''project'', [(''instances'', 1), (''cores'', 2), (''ram'', 512)]),
                                  (''user'', [(''instances'', 1), (''cores'', 2), (''ram'', 512)])]),
         (''cell2'', did_not_respond_sentinel),
         (''cell3'', cell_counts [(''project'', [(''instances'', 2), (''cores'', 4), (''ram'', 1024)]),
                                  (''user'', [(''instances'', 0), (''cores'', 0), (''ram'', 0)])])]),
      instance_mapping_get_counts = (\<lambda>p u. []),
      get_usages_counts_for_quota = (\<lambda>p u. [])\<rparr>"
  have h: "\<forall>r \<in> set (map snd (scatter_gather_cells ?ce ''project-1'' (Some ''user-1''))).
      cell_result_ok (str_truthy (Some ''user-1'')) r"
    by (simp add: cell_result_ok_def counts_ok_def dict_get_def dict_keys_def zero_counts_def
        str_truthy_def)
  from legacy_count_skips_failed_cells [OF h] show ?thesis
    by (simp add: instances_cores_ram_count_legacy_def zero_counts_def dict_get_def
        dict_set_def str_truthy_def)
qed

subsection \<open>limit_check\<close>

lemma valid_method_call_check_names_not_OverQuota:
  "valid_method_call_check_names nms m rs \<noteq> Inl (OverQuota a b c)"
  by (induction nms)
    (auto simp: valid_method_call_check_resource_def split: option.splits sum.splits if_splits)

lemma get_quotas_error:
  "get_quotas e ctx rs keys pid uid pq = Inl err \<Longrightarrow> \<exists>names. err = QuotaResourceUnknown names"
  by (auto simp: get_quotas_def get_user_quotas_def get_project_quotas_def Let_def
      split: if_splits sum.splits)

lemma get_quotas_not_OverQuota:
  "get_quotas e ctx rs keys pid uid pq \<noteq> Inl (OverQuota a b c)"
  using get_quotas_error [of e ctx rs keys pid uid pq "OverQuota a b c"] by auto

lemma limit_check_overs_error:
  "limit_check_overs q uq vals = Inl err \<Longrightarrow> \<exists>k. err = KeyError k"
  by (induction q uq vals rule: limit_check_overs.induct)
    (auto split: option.splits sum.splits if_splits)

lemma limit_check_overs_not_OverQuota:
  "limit_check_overs q uq vals \<noteq> Inl (OverQuota a b c)"
  using limit_check_overs_error [of q uq vals "OverQuota a b c"] by auto

lemma limit_check_headroom_error:
  "limit_check_headroom q pq ks h = Inl err \<Longrightarrow> err = ValueError"
  by (induction q pq ks h rule: limit_check_headroom.induct)
    (auto simp: headroom_value_def split: option.splits sum.splits if_splits list.splits)

lemma limit_check_headroom_not_OverQuota:
  "limit_check_headroom q pq ks h \<noteq> Inl (OverQuota a b c)"
  using limit_check_headroom_error [of q pq ks h "OverQuota a b c"] by auto

lemma limit_check_OverQuota_cases:
  assumes "limit_check e ctx resources vals project_id user_id = Inl (OverQuota overs quotas headroom)"
  shows "\<exists>uq ov.
      project_scope_quotas e ctx resources (dict_keys vals) project_id = Inr quotas
      \<and> user_scope_quotas e ctx resources (dict_keys vals) project_id user_id = Inr uq
      \<and> unders_of vals = []
      \<and> limit_check_overs quotas uq vals = Inr ov \<and> ov \<noteq> [] \<and> overs = sort ov
      \<and> limit_check_headroom quotas (get_all_by_project e (scope_project_id ctx project_id))
            ov [] = Inr headroom"
proof -
  let ?pq = "get_all_by_project e (scope_project_id ctx project_id)"
  have nv: "valid_method_call_check_resources vals ''check'' resources \<noteq> Inl (OverQuota overs quotas headroom)"
    by (simp add: valid_method_call_check_resources_def valid_method_call_check_names_not_OverQuota)
  have np: "project_scope_quotas e ctx resources (dict_keys vals) project_id \<noteq> Inl (OverQuota overs quotas headroom)"
    by (simp add: project_scope_quotas_def Let_def get_quotas_not_OverQuota)
  have nu: "user_scope_quotas e ctx resources (dict_keys vals) project_id user_id \<noteq> Inl (OverQuota overs quotas headroom)"
    by (simp add: user_scope_quotas_def Let_def get_quotas_not_OverQuota)
  from assms nv obtain u where
    v: "valid_method_call_check_resources vals ''check'' resources = Inr u"
    by (cases "valid_method_call_check_resources vals ''check'' resources")
      (auto simp: limit_check_def)
  from assms v have un: "unders_of vals = []"
    by (auto simp: limit_check_def split: if_splits)
  from assms v un np obtain q where
    q: "project_scope_quotas e ctx resources (dict_keys vals) project_id = Inr q"
    by (cases "project_scope_quotas e ctx resources (dict_keys vals) project_id")
      (auto simp: limit_check_def Let_def)
  from assms v un q nu obtain uq where
    uq: "user_scope_quotas e ctx resources (dict_keys vals) project_id user_id = Inr uq"
    by (cases "user_scope_quotas e ctx resources (dict_keys vals) project_id user_id")
      (auto simp: limit_check_def Let_def)
  from assms v un q uq obtain ov where ov: "limit_check_overs q uq vals = Inr ov"
    using limit_check_overs_not_OverQuota [of q uq vals overs quotas headroom]
    by (cases "limit_check_overs q uq vals") (auto simp: limit_check_def Let_def)
  from assms v un q uq ov have ne: "ov \<noteq> []"
    by (auto simp: limit_check_def Let_def split: if_splits)
  from assms v un q uq ov ne obtain hr where
    hr: "limit_check_headroom q ?pq ov [] = Inr hr"
    using limit_check_headroom_not_OverQuota [of q ?pq ov "[]" overs quotas headroom]
    by (cases "limit_check_headroom q ?pq ov []") (auto simp: limit_check_def Let_def)
  from assms v un q uq ov ne hr have "overs = sort ov" "quotas = q" "headroom = hr"
    by (auto simp: limit_check_def Let_def)
  with q uq un ov ne hr show ?thesis by blast
qed

lemma limit_check_overs_iff:
  "limit_check_overs q uq vals = Inr ov \<Longrightarrow>
   k \<in> set ov \<longleftrightarrow>
     (\<exists>v. (k, v) \<in> set vals
          \<and> ((\<exists>ql. dict_get q k = Some ql \<and> over_limit ql v)
             \<or> (\<exists>ul. dict_get uq k = Some ul \<and> over_limit ul v)))"
proof (induction vals arbitrary: ov)
  case Nil
  then show ?case by simp
next
  case (Cons kv rest)
  obtain key val where kv: "kv = (key, val)" by (cases kv)
  from Cons.prems kv obtain ql where ql: "dict_get q key = Some ql"
    by (cases "dict_get q key") auto
  show ?case
  proof (cases "over_limit ql val")
    case True
    with Cons.prems kv ql obtain ov' where r: "limit_check_overs q uq rest = Inr ov'"
      and o: "ov = key # ov'"
      by (cases "limit_check_overs q uq rest") auto
    from Cons.IH [OF r] o kv ql True show ?thesis by auto
  next
    case False
    with Cons.prems kv ql obtain ul where ul: "dict_get uq key = Some ul"
      by (cases "dict_get uq key") auto
    from Cons.prems kv ql False ul obtain ov' where r: "limit_check_overs q uq rest = Inr ov'"
      and o: "ov = (if over_limit ul val then key # ov' else ov')"
      by (cases "limit_check_overs q uq rest") auto
    from Cons.IH [OF r] o kv ql False ul show ?thesis by auto
  qed
qed

lemma limit_check_overs_found:
  "limit_check_overs q uq vals = Inr ov \<Longrightarrow> (k, v) \<in> set vals \<Longrightarrow>
   \<exists>ql. dict_get q k = Some ql"
proof (induction vals arbitrary: ov)
  case Nil
  then show ?case by simp
next
  case (Cons kv rest)
  obtain key val where kv: "kv = (key, val)" by (cases kv)
  from Cons.prems(1) kv obtain ql where ql: "dict_get q key = Some ql"
    by (cases "dict_get q key") auto
  from Cons.prems(1) kv ql obtain ov' where r: "limit_check_overs q uq rest = Inr ov'"
    by (cases "limit_check_overs q uq rest") (auto split: if_splits option.splits)
  from Cons.IH [OF r] Cons.prems(2) kv ql show ?case by auto
qed

lemma unders_of_Nil_iff: "unders_of vals = [] \<longleftrightarrow> (\<forall>kv \<in> set vals. 0 \<le> snd kv)"
  by (auto simp: unders_of_def filter_empty_conv not_less)

lemma limit_check_headroom_get:
  "limit_check_headroom q pq ks h0 = Inr hr \<Longrightarrow>
   (k \<in> set ks \<longrightarrow> (\<exists>h. headroom_value q pq k = Inr h \<and> dict_get hr k = Some h))
   \<and> (k \<notin> set ks \<longrightarrow> dict_get hr k = dict_get h0 k)"
proof (induction ks arbitrary: h0)
  case Nil
  then show ?case by simp
next
  case (Cons key rest)
  from Cons.prems obtain h where h: "headroom_value q pq key = Inr h"
    and r: "limit_check_headroom q pq rest (dict_set h0 key h) = Inr hr"
    by (cases "headroom_value q pq key") auto
  from Cons.IH [OF r] h show ?case
    by (cases "k \<in> set rest") (auto simp: dict_get_dict_set)
qed

lemma headroom_value_eq:
  "dict_get q k = Some ql \<Longrightarrow>
   headroom_value q pq k = Inr (case dict_get pq k of None \<Rightarrow> ql | Some pl \<Rightarrow> min ql pl)"
  by (simp add: headroom_value_def List.map_filter_simps min.commute split: option.splits)

lemma dict_get_foldl_dict_set:
  "dict_get (foldl (\<lambda>d r. dict_set d (kf r) (f r)) d0 rs) n =
     (case filter (\<lambda>r. kf r = n) rs of [] \<Rightarrow> dict_get d0 n
      | x # xs \<Rightarrow> Some (f (last (x # xs))))"
proof (induction rs arbitrary: d0)
  case Nil
  then show ?case by simp
next
  case (Cons r rs)
  show ?case
  proof (cases "filter (\<lambda>r. kf r = n) rs")
    case Nil
    then show ?thesis
      using Cons.IH [of "dict_set d0 (kf r) (f r)"] by (auto simp: dict_get_dict_set)
  next
    case (Cons y ys)
    then show ?thesis
      using Cons.IH [of "dict_set d0 (kf r) (f r)"] by simp
  qed
qed

lemma dict_get_map_values:
  "dict_get (map (\<lambda>kv. (fst kv, g (snd kv))) d) k = map_option g (dict_get d k)"
  by (induction d) (auto simp: dict_get_def)

lemma dict_or_same: "dict_or (Some d) d = d"
  by (simp add: dict_or_def)

lemma process_quotas_limit_of_stored:
  assumes "dict_get (process_quotas e ctx rs pid quotas qc usages False) k = Some info"
    and "dict_get quotas k = Some v"
  shows "limit info = v"
proof -
  let ?cq = "if str_truthy (if pid = ctx_project_id ctx then ctx_quota_class ctx else qc)
             then get_all_class_by_name e
                    (the (if pid = ctx_project_id ctx then ctx_quota_class ctx else qc))
             else []"
  let ?f = "\<lambda>r. \<lparr>limit = process_limit e quotas ?cq (get_defaults e rs) r,
                 in_use = (if usages \<noteq> [] then Some (dict_get_or usages (name r) 0) else None),
                 remains = None\<rparr>"
  have pq: "process_quotas e ctx rs pid quotas qc usages False =
      foldl (\<lambda>d r. dict_set d (name r) (?f r)) [] (map snd rs)"
    by (simp add: process_quotas_def Let_def)
  from assms(1) obtain x xs where
    fl: "filter (\<lambda>r. name r = k) (map snd rs) = x # xs" and i: "info = ?f (last (x # xs))"
    unfolding pq dict_get_foldl_dict_set [of name ?f "[]" "map snd rs" k]
    by (cases "filter (\<lambda>r. name r = k) (map snd rs)") (auto simp: dict_get_def)
  have "last (x # xs) \<in> set (filter (\<lambda>r. name r = k) (map snd rs))"
    unfolding fl by (rule last_in_set) simp
  then have "name (last (x # xs)) = k" by simp
  with i assms(2) show ?thesis
    by (simp add: process_limit_def dict_get_or_def dict_get_def)
qed

lemma project_scope_quotas_stored:
  assumes "project_scope_quotas e ctx rs keys project_id = Inr q"
    and "dict_get q k = Some ql"
    and "dict_get (get_all_by_project e (scope_project_id ctx project_id)) k = Some pl"
  shows "ql = pl"
proof -
  let ?pid = "scope_project_id ctx project_id"
  let ?sub = "filter (\<lambda>kv. fst kv \<in> set keys) rs"
  from assms(1) have q: "q = map (\<lambda>kv. (fst kv, limit (snd kv)))
      (process_quotas e ctx ?sub ?pid (get_all_by_project e ?pid) (ctx_quota_class ctx) [] False)"
    by (auto simp: project_scope_quotas_def get_quotas_def get_project_quotas_def Let_def
        str_truthy_def dict_or_same split: if_splits)
  from assms(2) obtain info where
    "dict_get (process_quotas e ctx ?sub ?pid (get_all_by_project e ?pid) (ctx_quota_class ctx)
        [] False) k = Some info" and "ql = limit info"
    unfolding q dict_get_map_values by auto
  with process_quotas_limit_of_stored [OF this(1) assms(3)] show ?thesis by simp
qed

text \<open>The definitions unfolded to run the driver on the example deployment.\<close>

lemmas eval_defs = example_env_def example_context_def example_registry_def example_counts_def
      example_group_counts_def
      QUOTAS_def limit_check_def QuotaEngine_def dict_set_def
      valid_method_call_check_resources_def valid_method_call_check_resource_def
      valid_method_def dict_keys_def dict_get_def unders_of_def project_scope_quotas_def
      user_scope_quotas_def scope_project_id_def scope_user_id_def get_quotas_def
      str_truthy_def get_user_quotas_def get_project_quotas_def dict_or_def
      process_quotas_def process_limit_def get_defaults_def dict_get_or_def
      resource_default_def over_limit_def headroom_value_def Let_def
      get_usages_def

text \<open>
  C1. Whenever \<open>limit_check\<close> raises OverQuota, a resource is in \<open>overs\<close> exactly
  when it was requested with a (non-negative) value and its project-scope limit or its
  user-scope limit is concrete (at least 0) and strictly less than that value. A
  resource whose two limits are Unlimited (negative) is therefore never in \<open>overs\<close>,
  whatever value was proposed. \<open>quotas\<close> and \<open>user_quotas\<close> are the two dicts
  \<open>limit_check\<close> fetches with \<open>_get_quotas\<close>.
\<close>

theorem limit_check_flags_only_exceeded_limits:
  assumes "limit_check e ctx resources vals project_id user_id =
             Inl (OverQuota overs quotas headroom)"
  shows "\<exists>user_quotas.
      project_scope_quotas e ctx resources (dict_keys vals) project_id = Inr quotas
      \<and> user_scope_quotas e ctx resources (dict_keys vals) project_id user_id = Inr user_quotas
      \<and> (\<forall>k. k \<in> set overs \<longleftrightarrow>
            (\<exists>v. (k, v) \<in> set vals \<and> 0 \<le> v
                 \<and> ((\<exists>ql. dict_get quotas k = Some ql \<and> 0 \<le> ql \<and> ql < v)
                    \<or> (\<exists>ul. dict_get user_quotas k = Some ul \<and> 0 \<le> ul \<and> ul < v))))
      \<and> (\<forall>k ql ul. dict_get quotas k = Some ql \<and> ql < 0
              \<and> dict_get user_quotas k = Some ul \<and> ul < 0 \<longrightarrow> k \<notin> set overs)"
proof -
  from limit_check_OverQuota_cases [OF assms] obtain uq ov where
    q: "project_scope_quotas e ctx resources (dict_keys vals) project_id = Inr quotas"
    and uq: "user_scope_quotas e ctx resources (dict_keys vals) project_id user_id = Inr uq"
    and un: "unders_of vals = []"
    and ov: "limit_check_overs quotas uq vals = Inr ov" and o: "overs = sort ov"
    by blast
  have nonneg: "\<And>k v. (k, v) \<in> set vals \<Longrightarrow> 0 \<le> v"
    using un unfolding unders_of_Nil_iff by auto
  have iff: "\<forall>k. k \<in> set overs \<longleftrightarrow>
      (\<exists>v. (k, v) \<in> set vals \<and> 0 \<le> v
           \<and> ((\<exists>ql. dict_get quotas k = Some ql \<and> 0 \<le> ql \<and> ql < v)
              \<or> (\<exists>ul. dict_get uq k = Some ul \<and> 0 \<le> ul \<and> ul < v)))"
  proof
    fix k
    show "k \<in> set overs \<longleftrightarrow>
      (\<exists>v. (k, v) \<in> set vals \<and> 0 \<le> v
           \<and> ((\<exists>ql. dict_get quotas k = Some ql \<and> 0 \<le> ql \<and> ql < v)
              \<or> (\<exists>ul. dict_get uq k = Some ul \<and> 0 \<le> ul \<and> ul < v)))"
      using limit_check_overs_iff [OF ov, of k] nonneg o
      by (auto simp: over_limit_def)
  qed
  have unl: "\<forall>k ql ul. dict_get quotas k = Some ql \<and> ql < 0
              \<and> dict_get uq k = Some ul \<and> ul < 0 \<longrightarrow> k \<notin> set overs"
    using iff by auto
  from q uq iff unl show ?thesis by blast
qed

text \<open>Cores limited to 20 and ram unlimited: asking for 23 cores and 4096 MB of ram
  flags cores alone.\<close>

theorem limit_check_flags_only_exceeded_limits_witness:
  "limit_check (example_env [(''cores'', 20), (''ram'', - 1)] [] []) example_context
     example_registry [(''cores'', 23), (''ram'', 4096)] None None
   = Inl (OverQuota [''cores''] [(''cores'', 20), (''ram'', - 1)] [(''cores'', 20)])
   \<and> user_scope_quotas (example_env [(''cores'', 20), (''ram'', - 1)] [] []) example_context
       example_registry [''cores'', ''ram''] None None
     = Inr [(''cores'', 20), (''ram'', - 1)]
   \<and> ''ram'' \<notin> set [''cores'']"
proof -
  let ?e = "example_env [(''cores'', 20), (''ram'', - 1)] [] []"
  have h: "limit_check ?e example_context
     example_registry [(''cores'', 23), (''ram'', 4096)] None None
   = Inl (OverQuota [''cores''] [(''cores'', 20), (''ram'', - 1)] [(''cores'', 20)])"
    by (simp add: eval_defs)
  have us: "user_scope_quotas ?e example_context example_registry [''cores'', ''ram''] None None
     = Inr [(''cores'', 20), (''ram'', - 1)]"
    by (simp add: eval_defs)
  from limit_check_flags_only_exceeded_limits [OF h] obtain uq where
    uq: "user_scope_quotas ?e example_context example_registry
           (dict_keys [(''cores'', 23 :: int), (''ram'', 4096)]) None None = Inr uq"
    and unl: "\<forall>k ql ul. dict_get [(''cores'', 20 :: int), (''ram'', - 1)] k = Some ql \<and> ql < 0
              \<and> dict_get uq k = Some ul \<and> ul < 0 \<longrightarrow> k \<notin> set [''cores'']"
    by blast
  from uq us have "uq = [(''cores'', 20), (''ram'', - 1)]" by (simp add: dict_keys_def)
  with unl [rule_format, of "''ram''" "- 1" "- 1"] have "''ram'' \<notin> set [''cores'']"
    by (simp add: dict_get_def)
  with h us show ?thesis by (intro conjI)
qed

text \<open>
  C3, as the code has it. When \<open>limit_check\<close> raises OverQuota, the headroom of each
  resource in \<open>overs\<close> is the minimum of \<open>quotas[key]\<close> and the stored per-project
  override, the latter left out when there is none. \<open>quotas\<close> is what \<open>_get_quotas\<close>
  returns without a user id: the project-scope limit, merged from the stored
  per-project override, the quota class and the default. The per-user limit
  (\<open>user_quotas\<close>) takes no part in the headroom, also when the resource was flagged on
  it. Since the merged project-scope limit is the stored override whenever one exists,
  the headroom is that project-scope limit itself. Usage takes no part either:
  \<open>limit_check\<close> never counts it.
\<close>

theorem limit_check_headroom_is_limit:
  assumes "limit_check e ctx resources vals project_id user_id =
             Inl (OverQuota overs quotas headroom)"
    and "k \<in> set overs"
  shows "\<exists>ql. project_scope_quotas e ctx resources (dict_keys vals) project_id = Inr quotas
      \<and> dict_get quotas k = Some ql
      \<and> dict_get headroom k =
          Some (case dict_get (get_all_by_project e (scope_project_id ctx project_id)) k of
                  None \<Rightarrow> ql | Some pl \<Rightarrow> min ql pl)
      \<and> dict_get headroom k = Some ql"
proof -
  let ?pq = "get_all_by_project e (scope_project_id ctx project_id)"
  from limit_check_OverQuota_cases [OF assms(1)] obtain uq ov where
    q: "project_scope_quotas e ctx resources (dict_keys vals) project_id = Inr quotas"
    and ov: "limit_check_overs quotas uq vals = Inr ov" and o: "overs = sort ov"
    and hr: "limit_check_headroom quotas ?pq ov [] = Inr headroom"
    by blast
  from assms(2) o have kin: "k \<in> set ov" by simp
  with limit_check_overs_iff [OF ov, of k] obtain v where "(k, v) \<in> set vals" by blast
  from limit_check_overs_found [OF ov this] obtain ql where ql: "dict_get quotas k = Some ql"
    by blast
  from limit_check_headroom_get [OF hr, of k] kin headroom_value_eq [OF ql, of ?pq]
  have h: "dict_get headroom k = Some (case dict_get ?pq k of None \<Rightarrow> ql | Some pl \<Rightarrow> min ql pl)"
    by auto
  have "(case dict_get ?pq k of None \<Rightarrow> ql | Some pl \<Rightarrow> min ql pl) = ql"
    using project_scope_quotas_stored [OF q ql] by (cases "dict_get ?pq k") auto
  with q ql h show ?thesis by auto
qed

text \<open>
  The project has 18 cores in use and a limit of 20; the caller asks for 5 more, that
  is, proposes the value 18 + 5. The exception carries \<open>overs = ['cores']\<close> and
  \<open>headroom = {'cores': 20}\<close>: the limit, not the 2 cores that remain.
\<close>

theorem limit_check_headroom_is_limit_witness:
  "get_usages (example_env [(''cores'', 20)] [] []) example_registry ''project-1'' None
   = Inr [(''instances'', 9), (''cores'', 18), (''ram'', 2048), (''key_pairs'', 0),
          (''server_groups'', 2), (''server_group_members'', 0)]
   \<and> limit_check (example_env [(''cores'', 20)] [] []) example_context example_registry
       [(''cores'', 18 + 5)] None None
     = Inl (OverQuota [''cores''] [(''cores'', 20)] [(''cores'', 20)])
   \<and> dict_get [(''cores'', 20)] ''cores'' = Some (20 :: int)"
proof -
  let ?e = "example_env [(''cores'', 20)] [] []"
  have h: "limit_check ?e example_context example_registry
       [(''cores'', 18 + 5)] None None
     = Inl (OverQuota [''cores''] [(''cores'', 20)] [(''cores'', 20)])"
    by (simp add: eval_defs)
  have k: "''cores'' \<in> set [''cores'']" by simp
  have u: "get_usages ?e example_registry ''project-1'' None
   = Inr [(''instances'', 9), (''cores'', 18), (''ram'', 2048), (''key_pairs'', 0),
          (''server_groups'', 2), (''server_group_members'', 0)]"
    by (simp add: eval_defs)
  from limit_check_headroom_is_limit [OF h k] obtain ql where
    "dict_get [(''cores'', 20 :: int)] ''cores'' = Some ql"
    and "dict_get [(''cores'', 20 :: int)] ''cores'' = Some ql" by blast
  then have "dict_get [(''cores'', 20)] ''cores'' = Some (20 :: int)"
    by (simp add: dict_get_def)
  with u h show ?thesis by (intro conjI)
qed

text \<open>
  C3 as stated fails where it takes the per-user limit as an operand of the minimum.
  With a stored project limit of 20 for cores and a per-user override of 4, proposing 5
  cores is flagged on the user's limit; the headroom reported is 20, not min(4, 20).
\<close>

theorem limit_check_headroom_counterexample:
  "limit_check (example_env [(''cores'', 20)] [(''cores'', 4)] []) example_context
     example_registry [(''cores'', 5)] None None
   = Inl (OverQuota [''cores''] [(''cores'', 20)] [(''cores'', 20)])
   \<and> user_scope_quotas (example_env [(''cores'', 20)] [(''cores'', 4)] []) example_context
       example_registry [''cores''] None None
     = Inr [(''cores'', 4)]
   \<and> dict_get (get_all_by_project (example_env [(''cores'', 20)] [(''cores'', 4)] [])
                 ''project-1'') ''cores'' = Some 20
   \<and> min (4 :: int) 20 \<noteq> 20"
  by (simp add: eval_defs)

subsection \<open>Registries and the limits fetched for valid names\<close>

lemma set_dict_set_subset: "set (dict_set d k v) \<subseteq> insert (k, v) (set d)"
  unfolding dict_set_def by (induction d) auto

lemma foldl_dict_set_keys:
  "set (dict_keys (foldl (\<lambda>d r. dict_set d (kf r) (f r)) d0 rs)) = set (dict_keys d0) \<union> kf ` set rs"
  by (induction rs arbitrary: d0) (auto simp: set_dict_keys_dict_set)

lemma foldl_dict_set_distinct:
  "distinct (dict_keys d0) \<Longrightarrow> distinct (dict_keys (foldl (\<lambda>d r. dict_set d (kf r) (f r)) d0 rs))"
  by (induction rs arbitrary: d0) (auto simp: distinct_dict_keys_dict_set)

text \<open>The lookup \<open>default_quotas[resource.name]\<close> of \<open>_process_quotas\<close> always
  finds its key.\<close>

lemma get_defaults_has_name:
  "r \<in> set (map snd resources) \<Longrightarrow> dict_get (get_defaults e resources) (name r) \<noteq> None"
  unfolding dict_get_None_iff get_defaults_def
  using foldl_dict_set_keys
    [of name "\<lambda>r. dict_get_or (get_default_class e) (name r) (resource_default e r)" "[]"
        "map snd resources"]
  by (auto simp: dict_keys_def)

lemma QuotaEngine_keyed_by_name:
  "list_all (\<lambda>kv. name (snd kv) = fst kv) d0 \<Longrightarrow>
   list_all (\<lambda>kv. name (snd kv) = fst kv) (foldl (\<lambda>d r. dict_set d (name r) r) d0 rs)"
proof (induction rs arbitrary: d0)
  case Nil
  then show ?case by simp
next
  case (Cons r rs)
  have "list_all (\<lambda>kv. name (snd kv) = fst kv) (dict_set d0 (name r) r)"
    using Cons.prems set_dict_set_subset [of d0 "name r" r]
    by (auto simp: list_all_iff)
  from Cons.IH [OF this] show ?case by simp
qed

lemma registry_ok_QuotaEngine: "registry_ok (QuotaEngine rs)"
  unfolding registry_ok_def QuotaEngine_def
  using foldl_dict_set_distinct [of "[]" name "\<lambda>r. r" rs] QuotaEngine_keyed_by_name [of "[]" rs]
  by (simp add: dict_keys_def)

lemma valid_names_registered:
  "valid_method_call_check_names nms m rs = Inr u \<Longrightarrow> set nms \<subseteq> set (dict_keys rs)"
proof (induction nms)
  case Nil
  then show ?case by simp
next
  case (Cons nm nms)
  from Cons.prems have a: "valid_method_call_check_resource nm m rs = Inr ()"
    and b: "valid_method_call_check_names nms m rs = Inr u"
    by (auto split: sum.splits)
  from a have "nm \<in> set (dict_keys rs)"
    using dict_get_None_iff [of rs nm]
    by (auto simp: valid_method_call_check_resource_def split: option.splits)
  with Cons.IH [OF b] show ?case by simp
qed

lemma sub_resources_length:
  assumes "distinct (dict_keys resources)" "distinct keys" "set keys \<subseteq> set (dict_keys resources)"
  shows "length (filter (\<lambda>kv. fst kv \<in> set keys) resources) = length keys"
proof -
  let ?sub = "filter (\<lambda>kv. fst kv \<in> set keys) resources"
  have m: "map fst ?sub = filter (\<lambda>k. k \<in> set keys) (map fst resources)"
    by (simp add: filter_map comp_def)
  have d: "distinct (map fst ?sub)" unfolding m using assms(1) by (simp add: dict_keys_def)
  have s: "set (map fst ?sub) = set keys" unfolding m using assms(3) by (auto simp: dict_keys_def)
  have "length ?sub = length (map fst ?sub)" by simp
  also have "\<dots> = card (set (map fst ?sub))" using d by (simp only: distinct_card)
  also have "\<dots> = card (set keys)" using s by simp
  also have "\<dots> = length keys" using assms(2) by (simp only: distinct_card)
  finally show ?thesis .
qed

lemma sub_resources_names:
  assumes "registry_ok resources" "set keys \<subseteq> set (dict_keys resources)"
  shows "name ` set (map snd (filter (\<lambda>kv. fst kv \<in> set keys) resources)) = set keys"
proof -
  have "\<And>kv. kv \<in> set resources \<Longrightarrow> name (snd kv) = fst kv"
    using assms(1) by (auto simp: registry_ok_def list_all_iff)
  then show ?thesis using assms(2) by (force simp: dict_keys_def image_iff)
qed

lemma process_quotas_keys:
  "set (dict_keys (process_quotas e ctx rs pid quotas qc usages False)) = name ` set (map snd rs)
   \<and> distinct (dict_keys (process_quotas e ctx rs pid quotas qc usages False))"
proof -
  let ?cq = "if str_truthy (if pid = ctx_project_id ctx then ctx_quota_class ctx else qc)
             then get_all_class_by_name e
                    (the (if pid = ctx_project_id ctx then ctx_quota_class ctx else qc))
             else []"
  let ?f = "\<lambda>r. \<lparr>limit = process_limit e quotas ?cq (get_defaults e rs) r,
                 in_use = (if usages \<noteq> [] then Some (dict_get_or usages (name r) 0) else None),
                 remains = None\<rparr>"
  have pq: "process_quotas e ctx rs pid quotas qc usages False =
      foldl (\<lambda>d r. dict_set d (name r) (?f r)) [] (map snd rs)"
    by (simp add: process_quotas_def Let_def)
  show ?thesis unfolding pq
    using foldl_dict_set_keys [of name ?f "[]" "map snd rs"]
      foldl_dict_set_distinct [of "[]" name ?f "map snd rs"]
    by (simp add: dict_keys_def)
qed

lemma dict_keys_map_values: "dict_keys (map (\<lambda>kv. (fst kv, g (snd kv))) d) = dict_keys d"
  by (simp add: dict_keys_def comp_def)

lemma get_quotas_ok:
  assumes "registry_ok resources" "distinct keys" "set keys \<subseteq> set (dict_keys resources)"
  shows "\<exists>q. get_quotas e ctx resources keys pid uid pq = Inr q
     \<and> set (dict_keys q) = set keys \<and> distinct (dict_keys q)"
proof -
  let ?sub = "filter (\<lambda>kv. fst kv \<in> set keys) resources"
  have len: "length keys = length ?sub"
    using sub_resources_length [of resources keys] assms by (simp add: registry_ok_def)
  have nm: "name ` set (map snd ?sub) = set keys"
    using sub_resources_names [OF assms(1) assms(3)] .
  show ?thesis
    using len nm process_quotas_keys
    by (auto simp: get_quotas_def get_user_quotas_def get_project_quotas_def Let_def
        dict_keys_map_values simp del: set_map)
qed

subsection \<open>The merge of limit_check_project_and_user\<close>

lemma dict_pop_filter: "dict_pop d k = filter (\<lambda>kv. fst kv \<noteq> k) d"
  by (induction d) (auto simp: dict_pop_def)

lemma dict_get_or_filter_neq:
  "k' \<noteq> k \<Longrightarrow> dict_get_or (filter (\<lambda>kv. fst kv \<noteq> k) d) k' dflt = dict_get_or d k' dflt"
  by (induction d) (auto simp: dict_get_or_def)

lemma dict_get_Cons: "dict_get ((k', v) # d) k = (if k = k' then Some v else dict_get d k)"
  by (simp add: dict_get_def)

lemma dict_set_append: "k \<notin> set (dict_keys d) \<Longrightarrow> dict_set d k v = d @ [(k, v)]"
  unfolding dict_set_def dict_keys_def by (induction d) auto

lemma foldl_merge_step:
  "distinct ks \<Longrightarrow> set ks \<inter> set (dict_keys (merged_values s)) = {} \<Longrightarrow>
   foldl merge_step s ks =
     \<lparr>project_values_now = filter (\<lambda>kv. fst kv \<notin> set ks) (project_values_now s),
      user_values_now = filter (\<lambda>kv. fst kv \<notin> set ks) (user_values_now s),
      merged_values = merged_values s
         @ map (\<lambda>k. (k, merged_value (project_values_now s) (user_values_now s) k)) ks\<rparr>"
proof (induction ks arbitrary: s)
  case Nil
  then show ?case by simp
next
  case (Cons k ks)
  let ?s1 = "merge_step s k"
  from Cons.prems have knot: "k \<notin> set (dict_keys (merged_values s))" and kks: "k \<notin> set ks"
    and d: "distinct ks" by auto
  have mv1: "merged_values ?s1 = merged_values s
      @ [(k, merged_value (project_values_now s) (user_values_now s) k)]"
    using knot by (simp add: merge_step_def dict_set_append merged_value_def)
  have p1: "project_values_now ?s1 = filter (\<lambda>kv. fst kv \<noteq> k) (project_values_now s)"
    and u1: "user_values_now ?s1 = filter (\<lambda>kv. fst kv \<noteq> k) (user_values_now s)"
    by (simp_all add: merge_step_def dict_pop_filter)
  have disj: "set ks \<inter> set (dict_keys (merged_values ?s1)) = {}"
    using Cons.prems kks by (auto simp: mv1 dict_keys_def)
  have same: "\<And>k'. k' \<in> set ks \<Longrightarrow>
      merged_value (project_values_now ?s1) (user_values_now ?s1) k'
        = merged_value (project_values_now s) (user_values_now s) k'"
  proof -
    fix k' assume "k' \<in> set ks"
    then have "k' \<noteq> k" using kks by auto
    then show "merged_value (project_values_now ?s1) (user_values_now ?s1) k'
        = merged_value (project_values_now s) (user_values_now s) k'"
      unfolding p1 u1 merged_value_def
      by (simp add: dict_get_or_filter_neq)
  qed
  have "foldl merge_step s (k # ks) = foldl merge_step ?s1 ks" by simp
  also have "\<dots> = \<lparr>project_values_now = filter (\<lambda>kv. fst kv \<notin> set ks) (project_values_now ?s1),
      user_values_now = filter (\<lambda>kv. fst kv \<notin> set ks) (user_values_now ?s1),
      merged_values = merged_values ?s1
         @ map (\<lambda>k'. (k', merged_value (project_values_now ?s1) (user_values_now ?s1) k')) ks\<rparr>"
    by (rule Cons.IH [OF d disj])
  also have "\<dots> = \<lparr>project_values_now = filter (\<lambda>kv. fst kv \<notin> set (k # ks)) (project_values_now s),
      user_values_now = filter (\<lambda>kv. fst kv \<notin> set (k # ks)) (user_values_now s),
      merged_values = merged_values s
         @ map (\<lambda>k'. (k', merged_value (project_values_now s) (user_values_now s) k')) (k # ks)\<rparr>"
    using same by (simp add: p1 u1 mv1 conj_commute cong: map_cong)
  finally show ?case .
qed

lemma set_keys_to_merge:
  "set (keys_to_merge_of pv uv) =
     (set (dict_keys pv) - set (dict_keys uv)) \<union> (set (dict_keys uv) - set (dict_keys pv))"
  by (auto simp: keys_to_merge_of_def)

lemma merge_values_eq:
  "merge_values pv uv =
     \<lparr>project_values_now = filter (\<lambda>kv. fst kv \<in> set (dict_keys uv)) pv,
      user_values_now = filter (\<lambda>kv. fst kv \<in> set (dict_keys pv)) uv,
      merged_values = map (\<lambda>k. (k, merged_value pv uv k)) (keys_to_merge_of pv uv)\<rparr>"
proof -
  let ?s0 = "\<lparr>project_values_now = pv, user_values_now = uv, merged_values = []\<rparr>"
  have d: "distinct (keys_to_merge_of pv uv)" by (simp add: keys_to_merge_of_def)
  have e: "set (keys_to_merge_of pv uv) \<inter> set (dict_keys (merged_values ?s0)) = {}"
    by (simp add: dict_keys_def)
  have fp: "filter (\<lambda>kv. fst kv \<notin> set (keys_to_merge_of pv uv)) pv
      = filter (\<lambda>kv. fst kv \<in> set (dict_keys uv)) pv"
    by (rule filter_cong) (auto simp: set_keys_to_merge dict_keys_def)
  have fu: "filter (\<lambda>kv. fst kv \<notin> set (keys_to_merge_of pv uv)) uv
      = filter (\<lambda>kv. fst kv \<in> set (dict_keys pv)) uv"
    by (rule filter_cong) (auto simp: set_keys_to_merge dict_keys_def)
  show ?thesis
    unfolding merge_values_def foldl_merge_step [OF d e]
    by (simp add: fp fu)
qed

lemma merged_value_only_in_one:
  "k \<in> set (keys_to_merge_of pv uv) \<Longrightarrow> only_in_one pv uv k = Some (merged_value pv uv k)"
  unfolding set_keys_to_merge
  using dict_get_None_iff [of pv k] dict_get_None_iff [of uv k]
  by (auto simp: only_in_one_def merged_value_def py_or_def dict_get_or_def dict_get_def
      split: option.splits)

lemma only_in_one_Some_iff:
  "(\<exists>v. only_in_one pv uv k = Some v) \<longleftrightarrow> k \<in> set (keys_to_merge_of pv uv)"
  unfolding set_keys_to_merge
  using dict_get_None_iff [of pv k] dict_get_None_iff [of uv k]
  by (auto simp: only_in_one_def split: option.splits)

lemma merge_quotas_get:
  "distinct (dict_keys uq) \<Longrightarrow>
   dict_get (foldl (\<lambda>m kv. case dict_get m (fst kv) of
                      Some x \<Rightarrow> dict_set m (fst kv) (min x (snd kv))
                    | None \<Rightarrow> dict_set m (fst kv) (snd kv)) q uq) k =
     (case dict_get uq k of
        None \<Rightarrow> dict_get q k
      | Some u \<Rightarrow> (case dict_get q k of None \<Rightarrow> Some u | Some x \<Rightarrow> Some (min x u)))"
proof (induction uq arbitrary: q)
  case Nil
  then show ?case by (simp add: dict_get_def)
next
  case (Cons kv uq)
  obtain k' u' where kv: "kv = (k', u')" by (cases kv)
  from Cons.prems kv have d: "distinct (dict_keys uq)" and kn: "k' \<notin> set (dict_keys uq)"
    by (auto simp: dict_keys_def)
  from kn have none: "dict_get uq k' = None" by (simp add: dict_get_None_iff)
  let ?f = "\<lambda>m kv. case dict_get m (fst kv) of
                      Some x \<Rightarrow> dict_set m (fst kv) (min x (snd kv))
                    | None \<Rightarrow> dict_set m (fst kv) (snd kv)"
  let ?q1 = "?f q kv"
  have q1: "dict_get ?q1 k =
      (if k = k' then (case dict_get q k' of None \<Rightarrow> Some u' | Some x \<Rightarrow> Some (min x u'))
       else dict_get q k)"
    using kv by (cases "dict_get q k'") (simp_all add: dict_get_dict_set)
  have "dict_get (foldl ?f q (kv # uq)) k = dict_get (foldl ?f ?q1 uq) k" by simp
  also have "\<dots> = (case dict_get uq k of
        None \<Rightarrow> dict_get ?q1 k
      | Some u \<Rightarrow> (case dict_get ?q1 k of None \<Rightarrow> Some u | Some x \<Rightarrow> Some (min x u)))"
    by (rule Cons.IH [OF d])
  also have "\<dots> = (case dict_get (kv # uq) k of
        None \<Rightarrow> dict_get q k
      | Some u \<Rightarrow> (case dict_get q k of None \<Rightarrow> Some u | Some x \<Rightarrow> Some (min x u)))"
  proof (cases "k = k'")
    case True
    then show ?thesis unfolding q1 using none kv by (simp add: dict_get_Cons)
  next
    case False
    then show ?thesis unfolding q1 using kv by (simp add: dict_get_Cons)
  qed
  finally show ?case .
qed

subsection \<open>The two checks of limit_check_project_and_user\<close>

lemma dict_get_or_Some: "dict_get d k = Some v \<Longrightarrow> dict_get_or d k dflt = v"
  by (simp add: dict_get_def dict_get_or_def)

lemma merged_overs_eq:
  "\<forall>kv \<in> set mv. dict_get mq (fst kv) \<noteq> None \<Longrightarrow>
   merged_overs mq mv =
     Inr (map fst (filter (\<lambda>kv. over_limit (dict_get_or mq (fst kv) 0) (snd kv)) mv))"
proof (induction mv)
  case Nil
  then show ?case by simp
next
  case (Cons kv mv)
  obtain k v where kv: "kv = (k, v)" by (cases kv)
  from Cons.prems kv obtain m where m: "dict_get mq k = Some m" by auto
  from Cons.prems have "\<forall>kv \<in> set mv. dict_get mq (fst kv) \<noteq> None" by simp
  from Cons.IH [OF this] kv m show ?case by (simp add: dict_get_or_Some)
qed

lemma headroom_from_ok:
  "\<forall>k \<in> set ks. dict_get d k \<noteq> None \<Longrightarrow> \<exists>h. headroom_from d ks h0 = Inr h"
proof (induction ks arbitrary: h0)
  case Nil
  then show ?case by simp
next
  case (Cons k ks)
  from Cons.prems obtain v where v: "dict_get d k = Some v" by auto
  from Cons.prems have "\<forall>k \<in> set ks. dict_get d k \<noteq> None" by simp
  from Cons.IH [OF this, of "dict_set h0 k v"] v show ?case by simp
qed

lemma both_verdict_eq:
  assumes "dict_get q k = Some ql" "dict_get uq k = Some ul"
    "dict_get pv k = Some pval" "dict_get uv k = Some uval"
  shows "both_verdict q uq pv uv k =
     Inr (if over_limit ql pval then OverProject
          else if over_limit ul uval then OverUser else NotOver)"
  using assms by (simp add: both_verdict_def over_limit_def)

lemma both_overs_eq:
  "\<forall>k \<in> set ks. dict_get q k \<noteq> None \<and> dict_get uq k \<noteq> None
       \<and> dict_get pv k \<noteq> None \<and> dict_get uv k \<noteq> None \<Longrightarrow>
   \<exists>fl. both_overs q uq pv uv ks =
     Inr (filter (\<lambda>k. over_limit (dict_get_or q k 0) (dict_get_or pv k 0)
                   \<or> over_limit (dict_get_or uq k 0) (dict_get_or uv k 0)) ks, fl)"
proof (induction ks)
  case Nil
  show ?case by (rule exI [of _ False]) simp
next
  case (Cons k ks)
  from Cons.prems obtain ql ul pval uval where
    g: "dict_get q k = Some ql" "dict_get uq k = Some ul"
       "dict_get pv k = Some pval" "dict_get uv k = Some uval"
    by auto
  from Cons.prems have "\<forall>k \<in> set ks. dict_get q k \<noteq> None \<and> dict_get uq k \<noteq> None
       \<and> dict_get pv k \<noteq> None \<and> dict_get uv k \<noteq> None" by simp
  from Cons.IH [OF this] obtain fl where
    r: "both_overs q uq pv uv ks =
     Inr (filter (\<lambda>k. over_limit (dict_get_or q k 0) (dict_get_or pv k 0)
                   \<or> over_limit (dict_get_or uq k 0) (dict_get_or uv k 0)) ks, fl)"
    by blast
  let ?v = "if over_limit ql pval then OverProject
            else if over_limit ul uval then OverUser else NotOver"
  have "both_overs q uq pv uv (k # ks) =
     Inr (filter (\<lambda>k. over_limit (dict_get_or q k 0) (dict_get_or pv k 0)
                   \<or> over_limit (dict_get_or uq k 0) (dict_get_or uv k 0)) (k # ks),
          fl \<or> ?v = OverUser)"
    using r both_verdict_eq [OF g] g
    by (simp add: dict_get_or_Some)
  then show ?case by (rule exI)
qed

lemma sort_distinct_eq: "distinct xs \<Longrightarrow> sort xs = sorted_list_of_set (set xs)"
  by (simp add: sorted_list_of_set_sort_remdups distinct_remdups_id)

lemma dict_get_filter_keys:
  "P k \<Longrightarrow> dict_get (filter (\<lambda>kv. P (fst kv)) d) k = dict_get d k"
  by (induction d) (auto simp: dict_get_def)

lemma dict_get_map_keys:
  "dict_get (map (\<lambda>k. (k, f k)) ks) k = (if k \<in> set ks then Some (f k) else None)"
  by (induction ks) (auto simp: dict_get_def)

lemma dict_get_Some_iff: "(\<exists>v. dict_get d k = Some v) \<longleftrightarrow> k \<in> set (dict_keys d)"
  using dict_get_None_iff [of d k] by (cases "dict_get d k") auto

lemma merged_check_result:
  assumes dq: "set (keys_to_merge_of pv uv) \<subseteq> set (dict_keys q)"
    and du: "set (keys_to_merge_of pv uv) \<subseteq> set (dict_keys uq)"
    and dist: "distinct (dict_keys uq)"
  shows "(merged_over q uq pv uv \<noteq> {} \<longrightarrow>
            (\<exists>headroom. merged_check q uq (merged_values (merge_values pv uv)) =
               Inl (OverQuota (sorted_list_of_set (merged_over q uq pv uv))
                      (merge_quotas q uq) headroom)))
       \<and> (merged_over q uq pv uv = {} \<longrightarrow>
            merged_check q uq (merged_values (merge_values pv uv)) = Inr ())"
proof -
  let ?K = "keys_to_merge_of pv uv"
  let ?mv = "map (\<lambda>k. (k, merged_value pv uv k)) ?K"
  let ?mq = "merge_quotas q uq"
  let ?ov = "map fst (filter (\<lambda>kv. over_limit (dict_get_or ?mq (fst kv) 0) (snd kv)) ?mv)"
  have mv: "merged_values (merge_values pv uv) = ?mv" by (simp add: merge_values_eq)
  have dK: "distinct ?K" by (simp add: keys_to_merge_of_def)
  have mq: "\<And>k. k \<in> set ?K \<Longrightarrow> \<exists>ql ul. dict_get q k = Some ql \<and> dict_get uq k = Some ul
      \<and> dict_get ?mq k = Some (min ql ul)"
  proof -
    fix k assume k: "k \<in> set ?K"
    from k dq du obtain ql ul where g: "dict_get q k = Some ql" "dict_get uq k = Some ul"
      using dict_get_Some_iff [of q k] dict_get_Some_iff [of uq k] by blast
    have "dict_get ?mq k = Some (min ql ul)"
      unfolding merge_quotas_def merge_quotas_get [OF dist] using g by simp
    with g show "\<exists>ql ul. dict_get q k = Some ql \<and> dict_get uq k = Some ul
      \<and> dict_get ?mq k = Some (min ql ul)" by blast
  qed
  have found: "\<forall>kv \<in> set ?mv. dict_get ?mq (fst kv) \<noteq> None"
    using mq by auto
  have ovs: "merged_overs ?mq ?mv = Inr ?ov" by (rule merged_overs_eq [OF found])
  have set_ov: "set ?ov = merged_over q uq pv uv"
  proof (rule set_eqI)
    fix k
    show "k \<in> set ?ov \<longleftrightarrow> k \<in> merged_over q uq pv uv"
    proof
      assume "k \<in> set ?ov"
      then have k: "k \<in> set ?K"
        and o: "over_limit (dict_get_or ?mq k 0) (merged_value pv uv k)" by auto
      from mq [OF k] obtain ql ul where g: "dict_get q k = Some ql" "dict_get uq k = Some ul"
        "dict_get ?mq k = Some (min ql ul)" by blast
      from o g(3) have "over_limit (min ql ul) (merged_value pv uv k)"
        by (simp add: dict_get_or_Some)
      with merged_value_only_in_one [OF k] g(1,2) show "k \<in> merged_over q uq pv uv"
        unfolding merged_over_def by blast
    next
      assume "k \<in> merged_over q uq pv uv"
      then obtain v ql ul where one: "only_in_one pv uv k = Some v"
        and g: "dict_get q k = Some ql" "dict_get uq k = Some ul"
        and o: "over_limit (min ql ul) v"
        unfolding merged_over_def by blast
      from one have k: "k \<in> set ?K" using only_in_one_Some_iff [of pv uv k] by blast
      from merged_value_only_in_one [OF k] one have v: "v = merged_value pv uv k" by simp
      from mq [OF k] g have "dict_get ?mq k = Some (min ql ul)" by auto
      with o v have "over_limit (dict_get_or ?mq k 0) (merged_value pv uv k)"
        by (simp add: dict_get_or_Some)
      with k show "k \<in> set ?ov" by (auto simp: image_iff)
    qed
  qed
  have d_ov: "distinct ?ov"
    using dK by (simp add: distinct_map_filter comp_def)
  have sorted: "sort ?ov = sorted_list_of_set (merged_over q uq pv uv)"
    using sort_distinct_eq [OF d_ov] set_ov by simp
  have ov_found: "\<forall>k \<in> set ?ov. dict_get ?mq k \<noteq> None"
    using mq by auto
  from headroom_from_ok [OF ov_found, of "[]"] obtain h where
    h: "headroom_from ?mq ?ov [] = Inr h" by blast
  have nonempty: "?ov \<noteq> [] \<Longrightarrow> ?mv \<noteq> []" by auto
  have a: "merged_over q uq pv uv \<noteq> {} \<longrightarrow>
      (\<exists>headroom. merged_check q uq (merged_values (merge_values pv uv)) =
         Inl (OverQuota (sorted_list_of_set (merged_over q uq pv uv)) ?mq headroom))"
  proof
    assume "merged_over q uq pv uv \<noteq> {}"
    with set_ov have "set ?ov \<noteq> {}" by (simp only: simp_thms)
    then have ne: "?ov \<noteq> []" unfolding set_empty .
    then have ne': "?mv \<noteq> []" by (rule nonempty)
    have "merged_check q uq ?mv = Inl (OverQuota (sort ?ov) ?mq h)"
      unfolding merged_check_def using ne ne' ovs h by (simp add: Let_def)
    then show "\<exists>headroom. merged_check q uq (merged_values (merge_values pv uv)) =
         Inl (OverQuota (sorted_list_of_set (merged_over q uq pv uv)) ?mq headroom)"
      unfolding mv sorted by blast
  qed
  have b: "merged_over q uq pv uv = {} \<longrightarrow>
      merged_check q uq (merged_values (merge_values pv uv)) = Inr ()"
  proof
    assume "merged_over q uq pv uv = {}"
    with set_ov have e: "?ov = []" by auto
    show "merged_check q uq (merged_values (merge_values pv uv)) = Inr ()"
      unfolding mv merged_check_def using e ovs by (simp add: Let_def)
  qed
  from a b show ?thesis by blast
qed

lemma both_check_result:
  assumes dq: "set (dict_keys pv) \<inter> set (dict_keys uv) \<subseteq> set (dict_keys q)"
    and du: "set (dict_keys pv) \<inter> set (dict_keys uv) \<subseteq> set (dict_keys uq)"
    and dist: "distinct (dict_keys uv)"
  shows "(both_over q uq pv uv \<noteq> {} \<longrightarrow>
            (\<exists>exceeded headroom.
               both_check q uq (project_values_now (merge_values pv uv))
                 (user_values_now (merge_values pv uv)) =
               Inl (OverQuota (sorted_list_of_set (both_over q uq pv uv)) exceeded headroom)))
       \<and> (both_over q uq pv uv = {} \<longrightarrow>
            both_check q uq (project_values_now (merge_values pv uv))
              (user_values_now (merge_values pv uv)) = Inr ())"
proof -
  let ?pv = "filter (\<lambda>kv. fst kv \<in> set (dict_keys uv)) pv"
  let ?uv = "filter (\<lambda>kv. fst kv \<in> set (dict_keys pv)) uv"
  let ?ks = "dict_keys ?uv"
  let ?ov = "filter (\<lambda>k. over_limit (dict_get_or q k 0) (dict_get_or ?pv k 0)
                   \<or> over_limit (dict_get_or uq k 0) (dict_get_or ?uv k 0)) ?ks"
  have pn: "project_values_now (merge_values pv uv) = ?pv"
    and un: "user_values_now (merge_values pv uv) = ?uv"
    by (simp_all add: merge_values_eq)
  have ks: "set ?ks = set (dict_keys pv) \<inter> set (dict_keys uv)"
    by (force simp: dict_keys_def image_iff)
  have dks: "distinct ?ks"
    using dist by (simp add: dict_keys_def distinct_map_filter)
  have gp: "\<And>k. k \<in> set ?ks \<Longrightarrow> dict_get ?pv k = dict_get pv k"
    using ks dict_get_filter_keys [of "\<lambda>k. k \<in> set (dict_keys uv)" _ pv] by blast
  have gu: "\<And>k. k \<in> set ?ks \<Longrightarrow> dict_get ?uv k = dict_get uv k"
    using ks dict_get_filter_keys [of "\<lambda>k. k \<in> set (dict_keys pv)" _ uv] by blast
  have all: "\<And>k. k \<in> set ?ks \<Longrightarrow> \<exists>ql ul pval uval.
      dict_get q k = Some ql \<and> dict_get uq k = Some ul
      \<and> dict_get pv k = Some pval \<and> dict_get uv k = Some uval"
  proof -
    fix k assume k: "k \<in> set ?ks"
    with ks dq du have "k \<in> set (dict_keys q)" "k \<in> set (dict_keys uq)"
      "k \<in> set (dict_keys pv)" "k \<in> set (dict_keys uv)" by auto
    then show "\<exists>ql ul pval uval.
      dict_get q k = Some ql \<and> dict_get uq k = Some ul
      \<and> dict_get pv k = Some pval \<and> dict_get uv k = Some uval"
      using dict_get_Some_iff [of q k] dict_get_Some_iff [of uq k]
        dict_get_Some_iff [of pv k] dict_get_Some_iff [of uv k] by blast
  qed
  have found: "\<forall>k \<in> set ?ks. dict_get q k \<noteq> None \<and> dict_get uq k \<noteq> None
       \<and> dict_get ?pv k \<noteq> None \<and> dict_get ?uv k \<noteq> None"
  proof
    fix k assume k: "k \<in> set ?ks"
    from all [OF k] gp [OF k] gu [OF k]
    show "dict_get q k \<noteq> None \<and> dict_get uq k \<noteq> None
       \<and> dict_get ?pv k \<noteq> None \<and> dict_get ?uv k \<noteq> None" by auto
  qed
  from both_overs_eq [OF found] obtain fl where
    bo: "both_overs q uq ?pv ?uv ?ks = Inr (?ov, fl)" by blast
  have set_ov: "set ?ov = both_over q uq pv uv"
  proof (rule set_eqI)
    fix k
    show "k \<in> set ?ov \<longleftrightarrow> k \<in> both_over q uq pv uv"
    proof
      assume "k \<in> set ?ov"
      then have k: "k \<in> set ?ks"
        and o: "over_limit (dict_get_or q k 0) (dict_get_or ?pv k 0)
                \<or> over_limit (dict_get_or uq k 0) (dict_get_or ?uv k 0)" by auto
      from all [OF k] obtain ql ul pval uval where
        g: "dict_get q k = Some ql" "dict_get uq k = Some ul"
           "dict_get pv k = Some pval" "dict_get uv k = Some uval" by blast
      from g gp [OF k] gu [OF k] have g': "dict_get ?pv k = Some pval" "dict_get ?uv k = Some uval"
        by simp_all
      from o have "over_limit ql pval \<or> over_limit ul uval"
        by (simp add: dict_get_or_Some [OF g(1)] dict_get_or_Some [OF g(2)]
            dict_get_or_Some [OF g'(1)] dict_get_or_Some [OF g'(2)])
      with g show "k \<in> both_over q uq pv uv" unfolding both_over_def by blast
    next
      assume "k \<in> both_over q uq pv uv"
      then obtain pval uval ql ul where
        g: "dict_get pv k = Some pval" "dict_get uv k = Some uval"
           "dict_get q k = Some ql" "dict_get uq k = Some ul"
        and o: "over_limit ql pval \<or> over_limit ul uval"
        unfolding both_over_def by blast
      from g(1,2) have k: "k \<in> set ?ks"
        unfolding ks using dict_get_Some_iff [of pv k] dict_get_Some_iff [of uv k] by blast
      from g gp [OF k] gu [OF k] have g': "dict_get ?pv k = Some pval" "dict_get ?uv k = Some uval"
        by simp_all
      from o have "over_limit (dict_get_or q k 0) (dict_get_or ?pv k 0)
                \<or> over_limit (dict_get_or uq k 0) (dict_get_or ?uv k 0)"
        by (simp add: dict_get_or_Some [OF g(3)] dict_get_or_Some [OF g(4)]
            dict_get_or_Some [OF g'(1)] dict_get_or_Some [OF g'(2)])
      with k show "k \<in> set ?ov" by simp
    qed
  qed
  have d_ov: "distinct ?ov" using dks by simp
  have sorted: "sort ?ov = sorted_list_of_set (both_over q uq pv uv)"
    using sort_distinct_eq [OF d_ov] set_ov by simp
  let ?ex = "if fl then uq else q"
  have ov_found: "\<forall>k \<in> set ?ov. dict_get ?ex k \<noteq> None"
    using found by auto
  from headroom_from_ok [OF ov_found, of "[]"] obtain h where
    h: "headroom_from ?ex ?ov [] = Inr h" by blast
  have a: "both_over q uq pv uv \<noteq> {} \<longrightarrow>
      (\<exists>exceeded headroom. both_check q uq (project_values_now (merge_values pv uv))
                 (user_values_now (merge_values pv uv)) =
         Inl (OverQuota (sorted_list_of_set (both_over q uq pv uv)) exceeded headroom))"
  proof
    assume "both_over q uq pv uv \<noteq> {}"
    with set_ov have "set ?ov \<noteq> {}" by (simp only: simp_thms)
    then have ne: "?ov \<noteq> []" unfolding set_empty .
    have "both_check q uq ?pv ?uv = Inl (OverQuota (sort ?ov) ?ex h)"
      unfolding both_check_def using ne bo h by (simp add: Let_def)
    then show "\<exists>exceeded headroom. both_check q uq (project_values_now (merge_values pv uv))
                 (user_values_now (merge_values pv uv)) =
         Inl (OverQuota (sorted_list_of_set (both_over q uq pv uv)) exceeded headroom)"
      unfolding pn un sorted by blast
  qed
  have b: "both_over q uq pv uv = {} \<longrightarrow>
      both_check q uq (project_values_now (merge_values pv uv))
        (user_values_now (merge_values pv uv)) = Inr ()"
  proof
    assume "both_over q uq pv uv = {}"
    with set_ov have "set ?ov = {}" by (simp only:)
    then have e: "?ov = []" unfolding set_empty .
    show "both_check q uq (project_values_now (merge_values pv uv))
        (user_values_now (merge_values pv uv)) = Inr ()"
      unfolding pn un both_check_def using e bo by (simp add: Let_def)
  qed
  from a b show ?thesis by blast
qed

lemma all_keys_of_props:
  "distinct (all_keys_of pv uv)
   \<and> set (all_keys_of pv uv) = set (dict_keys pv) \<union> set (dict_keys uv)"
  by (simp add: all_keys_of_def)

lemmas eval_defs2 = limit_check_project_and_user_def limit_checks_after_merge_def
  merge_values_def keys_to_merge_of_def all_keys_of_def merge_step_def dict_pop_def py_or_def
  merge_quotas_def merged_check_def both_check_def both_verdict_def arguments_accepted_def

text \<open>
  C2. \<open>limit_check_project_and_user\<close> partitions the requested names. For a registry
  as the engine builds it, dicts with distinct keys and arguments that pass the
  validation: the keys of \<open>merged_values\<close> are those in exactly one of the two dicts,
  and the keys left in \<open>user_values\<close> are those in both. A
  key of the first kind is checked once, its value against the minimum of the
  project-scope and the user-scope limit (\<open>merged_over\<close>); if any such key is over, the
  call raises OverQuota with exactly those keys, sorted, and the merged limits. Otherwise
  a key of the second kind is checked with its project value against the project-scope
  limit and with its user value against the user-scope limit (\<open>both_over\<close>); if any is
  over, the call raises OverQuota with exactly those keys, sorted. Otherwise the call
  returns.
\<close>

theorem limit_check_project_and_user_partition:
  assumes reg: "registry_ok resources"
    and dp: "distinct (dict_keys pv)" and du: "distinct (dict_keys uv)"
    and acc: "arguments_accepted resources pv uv"
  shows "\<exists>quotas user_quotas.
      project_scope_quotas e ctx resources (all_keys_of pv uv) project_id = Inr quotas
      \<and> user_scope_quotas e ctx resources (all_keys_of pv uv) project_id user_id
          = Inr user_quotas
      \<and> set (dict_keys (merged_values (merge_values pv uv)))
          = (set (dict_keys pv) - set (dict_keys uv)) \<union> (set (dict_keys uv) - set (dict_keys pv))
      \<and> set (dict_keys (user_values_now (merge_values pv uv)))
          = set (dict_keys pv) \<inter> set (dict_keys uv)
      \<and> (merged_over quotas user_quotas pv uv \<noteq> {} \<longrightarrow>
           (\<exists>headroom.
              fst (limit_check_project_and_user e ctx resources (Some pv) (Some uv)
                     project_id user_id) =
              Inl (OverQuota (sorted_list_of_set (merged_over quotas user_quotas pv uv))
                     (merge_quotas quotas user_quotas) headroom)))
      \<and> (merged_over quotas user_quotas pv uv = {}
           \<and> both_over quotas user_quotas pv uv \<noteq> {} \<longrightarrow>
           (\<exists>exceeded headroom.
              fst (limit_check_project_and_user e ctx resources (Some pv) (Some uv)
                     project_id user_id) =
              Inl (OverQuota (sorted_list_of_set (both_over quotas user_quotas pv uv))
                     exceeded headroom)))
      \<and> (merged_over quotas user_quotas pv uv = {}
           \<and> both_over quotas user_quotas pv uv = {} \<longrightarrow>
           fst (limit_check_project_and_user e ctx resources (Some pv) (Some uv)
                  project_id user_id) = Inr ())"
proof -
  let ?all = "all_keys_of pv uv"
  let ?s = "merge_values pv uv"
  let ?pid = "scope_project_id ctx project_id"
  from acc have vp: "valid_method_call_check_resources pv ''check'' resources = Inr ()"
    and vu: "valid_method_call_check_resources uv ''check'' resources = Inr ()"
    and ne: "pv \<noteq> [] \<or> uv \<noteq> []"
    and np: "unders_of pv = []" and nu: "unders_of uv = []"
    by (simp_all add: arguments_accepted_def)
  from vp vu have sub: "set ?all \<subseteq> set (dict_keys resources)"
    using valid_names_registered [of "dict_keys pv" "''check''" resources "()"]
      valid_names_registered [of "dict_keys uv" "''check''" resources "()"]
    by (simp add: valid_method_call_check_resources_def all_keys_of_props)
  have dall: "distinct ?all" by (simp add: all_keys_of_props)
  from get_quotas_ok [OF reg dall sub, of e ctx ?pid None "Some (get_all_by_project e ?pid)"]
  obtain q where q: "project_scope_quotas e ctx resources ?all project_id = Inr q"
    and kq: "set (dict_keys q) = set ?all"
    by (auto simp: project_scope_quotas_def Let_def)
  from get_quotas_ok [OF reg dall sub, of e ctx ?pid "scope_user_id ctx user_id"
      "Some (get_all_by_project e ?pid)"]
  obtain uq where uq: "user_scope_quotas e ctx resources ?all project_id user_id = Inr uq"
    and kuq: "set (dict_keys uq) = set ?all" and duq: "distinct (dict_keys uq)"
    by (auto simp: user_scope_quotas_def Let_def)
  have res: "fst (limit_check_project_and_user e ctx resources (Some pv) (Some uv)
                  project_id user_id)
      = (case merged_check q uq (merged_values ?s) of
           Inl err \<Rightarrow> Inl err
         | Inr u \<Rightarrow> both_check q uq (project_values_now ?s) (user_values_now ?s))"
    using vp vu ne np nu q uq
    by (auto simp: limit_check_project_and_user_def limit_checks_after_merge_def Let_def)
  have m_sub_q: "set (keys_to_merge_of pv uv) \<subseteq> set (dict_keys q)"
    and m_sub_uq: "set (keys_to_merge_of pv uv) \<subseteq> set (dict_keys uq)"
    unfolding kq kuq set_keys_to_merge by (auto simp: all_keys_of_props)
  have b_sub_q: "set (dict_keys pv) \<inter> set (dict_keys uv) \<subseteq> set (dict_keys q)"
    and b_sub_uq: "set (dict_keys pv) \<inter> set (dict_keys uv) \<subseteq> set (dict_keys uq)"
    unfolding kq kuq by (auto simp: all_keys_of_props)
  note mc = merged_check_result [OF m_sub_q m_sub_uq duq]
  note bc = both_check_result [OF b_sub_q b_sub_uq du]
  have k1: "set (dict_keys (merged_values ?s))
      = (set (dict_keys pv) - set (dict_keys uv)) \<union> (set (dict_keys uv) - set (dict_keys pv))"
    unfolding merge_values_eq using set_keys_to_merge [of pv uv]
    by (simp add: dict_keys_def comp_def)
  have k2: "set (dict_keys (user_values_now ?s)) = set (dict_keys pv) \<inter> set (dict_keys uv)"
    unfolding merge_values_eq by (force simp: dict_keys_def image_iff)
  have c1: "merged_over q uq pv uv \<noteq> {} \<longrightarrow>
           (\<exists>headroom.
              fst (limit_check_project_and_user e ctx resources (Some pv) (Some uv)
                     project_id user_id) =
              Inl (OverQuota (sorted_list_of_set (merged_over q uq pv uv))
                     (merge_quotas q uq) headroom))"
    using mc unfolding res by auto
  have c2: "merged_over q uq pv uv = {} \<and> both_over q uq pv uv \<noteq> {} \<longrightarrow>
           (\<exists>exceeded headroom.
              fst (limit_check_project_and_user e ctx resources (Some pv) (Some uv)
                     project_id user_id) =
              Inl (OverQuota (sorted_list_of_set (both_over q uq pv uv)) exceeded headroom))"
    using mc bc unfolding res by auto
  have c3: "merged_over q uq pv uv = {} \<and> both_over q uq pv uv = {} \<longrightarrow>
           fst (limit_check_project_and_user e ctx resources (Some pv) (Some uv)
                  project_id user_id) = Inr ()"
    using mc bc unfolding res by auto
  from q uq k1 k2 c1 c2 c3 show ?thesis by blast
qed

text \<open>
  \<open>project_values = {'instances': 3}\<close>, \<open>user_values = {}\<close> and a project limit of 2
  for instances: the key is merged, checked against min(2, 2), and the call raises
  OverQuota with \<open>overs = ['instances']\<close>. Second example: cores requested in both
  dicts, 19 against the project limit 20 and 5 against the user's limit 4.
\<close>

theorem limit_check_project_and_user_partition_witness:
  "limit_check_project_and_user (example_env [(''instances'', 2)] [] []) example_context
     example_registry (Some [(''instances'', 3)]) (Some []) None None
   = (Inl (OverQuota [''instances''] [(''instances'', 2)] [(''instances'', 2)]), [], [])
   \<and> (\<exists>headroom.
        fst (limit_check_project_and_user (example_env [(''instances'', 2)] [] [])
               example_context example_registry (Some [(''instances'', 3)]) (Some []) None None)
        = Inl (OverQuota
                 (sorted_list_of_set
                    (merged_over [(''instances'', 2)] [(''instances'', 2)]
                       [(''instances'', 3)] []))
                 (merge_quotas [(''instances'', 2)] [(''instances'', 2)]) headroom))
   \<and> limit_check_project_and_user (example_env [] [(''cores'', 4)] []) example_context
       example_registry (Some [(''instances'', 3), (''cores'', 19)]) (Some [(''cores'', 5)])
       None None
     = (Inl (OverQuota [''cores''] [(''instances'', 10), (''cores'', 4)] [(''cores'', 4)]),
        [(''cores'', 19)], [(''cores'', 5)])"
proof -
  let ?e = "example_env [(''instances'', 2)] [] []"
  let ?pv = "[(''instances'', 3 :: int)]"
  let ?uv = "[] :: int dict"
  have reg: "registry_ok example_registry"
    by (simp add: example_registry_def QUOTAS_def registry_ok_QuotaEngine)
  have dp: "distinct (dict_keys ?pv)" and du: "distinct (dict_keys ?uv)"
    by (simp_all add: dict_keys_def)
  have acc: "arguments_accepted example_registry ?pv ?uv"
    by (simp add: eval_defs eval_defs2)
  have r1: "limit_check_project_and_user ?e example_context
     example_registry (Some ?pv) (Some ?uv) None None
   = (Inl (OverQuota [''instances''] [(''instances'', 2)] [(''instances'', 2)]), [], [])"
    by (simp add: eval_defs eval_defs2)
  have r2: "limit_check_project_and_user (example_env [] [(''cores'', 4)] []) example_context
       example_registry (Some [(''instances'', 3), (''cores'', 19)]) (Some [(''cores'', 5)])
       None None
     = (Inl (OverQuota [''cores''] [(''instances'', 10), (''cores'', 4)] [(''cores'', 4)]),
        [(''cores'', 19)], [(''cores'', 5)])"
    by (simp add: eval_defs eval_defs2)
  have q0: "project_scope_quotas ?e example_context example_registry (all_keys_of ?pv ?uv) None
      = Inr [(''instances'', 2)]"
    by (simp add: eval_defs eval_defs2)
  have u0: "user_scope_quotas ?e example_context example_registry (all_keys_of ?pv ?uv) None None
      = Inr [(''instances'', 2)]"
    by (simp add: eval_defs eval_defs2)
  have over: "merged_over [(''instances'', 2)] [(''instances'', 2)] ?pv ?uv \<noteq> {}"
  proof -
    have "''instances'' \<in> merged_over [(''instances'', 2)] [(''instances'', 2)] ?pv ?uv"
      by (simp add: merged_over_def only_in_one_def dict_get_def over_limit_def)
    then show ?thesis by blast
  qed
  from limit_check_project_and_user_partition [OF reg dp du acc, of ?e example_context None None]
  obtain q uq where
    q: "project_scope_quotas ?e example_context example_registry (all_keys_of ?pv ?uv) None = Inr q"
    and uq: "user_scope_quotas ?e example_context example_registry (all_keys_of ?pv ?uv) None None
       = Inr uq"
    and c: "merged_over q uq ?pv ?uv \<noteq> {} \<longrightarrow>
           (\<exists>headroom.
              fst (limit_check_project_and_user ?e example_context example_registry
                     (Some ?pv) (Some ?uv) None None) =
              Inl (OverQuota (sorted_list_of_set (merged_over q uq ?pv ?uv))
                     (merge_quotas q uq) headroom))"
    by blast
  from q q0 uq u0 have "q = [(''instances'', 2)]" "uq = [(''instances'', 2)]" by simp_all
  with c over have "\<exists>headroom.
        fst (limit_check_project_and_user ?e example_context example_registry
               (Some ?pv) (Some ?uv) None None)
        = Inl (OverQuota
                 (sorted_list_of_set
                    (merged_over [(''instances'', 2)] [(''instances'', 2)] ?pv ?uv))
                 (merge_quotas [(''instances'', 2)] [(''instances'', 2)]) headroom)"
    by blast
  with r1 r2 show ?thesis by (intro conjI)
qed

text \<open>
  C10. \<open>limit_check_project_and_user\<close> mutates the dicts it is given. Once the
  arguments have passed the validation, every key of the symmetric difference has been
  popped from both: what is left of \<open>project_values\<close> are its entries whose key is also
  in \<open>user_values\<close>, and the other way round, whatever the outcome of the checks. A call
  rejected by the validation leaves both dicts as they were.
\<close>

theorem limit_check_project_and_user_mutates_arguments:
  "snd (limit_check_project_and_user e ctx resources (Some pv) (Some uv) project_id user_id) =
     (if arguments_accepted resources pv uv
      then (filter (\<lambda>kv. fst kv \<in> set (dict_keys uv)) pv,
            filter (\<lambda>kv. fst kv \<in> set (dict_keys pv)) uv)
      else (pv, uv))"
  by (auto simp: limit_check_project_and_user_def arguments_accepted_def Let_def
      merge_values_eq split: sum.splits)

text \<open>A call that returns successfully and has emptied \<open>project_values\<close>; and a call
  that has removed \<open>instances\<close> from the caller's \<open>project_values\<close>.\<close>

theorem limit_check_project_and_user_mutates_arguments_witness:
  "limit_check_project_and_user (example_env [] [] []) example_context example_registry
     (Some [(''instances'', 3)]) (Some []) None None
   = (Inr (), [], [])
   \<and> snd (limit_check_project_and_user (example_env [] [(''cores'', 4)] []) example_context
           example_registry (Some [(''instances'', 3), (''cores'', 19)]) (Some [(''cores'', 5)])
           None None)
     = ([(''cores'', 19)], [(''cores'', 5)])"
proof -
  have r: "limit_check_project_and_user (example_env [] [] []) example_context example_registry
     (Some [(''instances'', 3)]) (Some []) None None
   = (Inr (), [], [])"
    by (simp add: eval_defs eval_defs2)
  have acc: "arguments_accepted example_registry [(''instances'', 3), (''cores'', 19)]
      [(''cores'', 5)]"
    by (simp add: eval_defs eval_defs2)
  from limit_check_project_and_user_mutates_arguments
    [of "example_env [] [(''cores'', 4)] []" example_context example_registry
        "[(''instances'', 3), (''cores'', 19)]" "[(''cores'', 5)]" None None] acc
  have "snd (limit_check_project_and_user (example_env [] [(''cores'', 4)] []) example_context
           example_registry (Some [(''instances'', 3), (''cores'', 19)]) (Some [(''cores'', 5)])
           None None)
     = ([(''cores'', 19)], [(''cores'', 5)])"
    by (simp add: dict_keys_def)
  with r show ?thesis by (intro conjI)
qed

subsection \<open>Names absent from the registry\<close>

lemma get_quotas_unknown:
  assumes dr: "distinct (dict_keys resources)"
    and unk: "\<not> set keys \<subseteq> set (dict_keys resources)"
  shows "get_quotas e ctx resources keys pid uid pq =
     Inl (QuotaResourceUnknown (sorted_list_of_set (set keys - set (dict_keys resources))))"
proof -
  let ?sub = "filter (\<lambda>kv. fst kv \<in> set keys) resources"
  have m: "map fst ?sub = filter (\<lambda>k. k \<in> set keys) (map fst resources)"
    by (simp add: filter_map comp_def)
  have d: "distinct (map fst ?sub)" unfolding m using dr by (simp add: dict_keys_def)
  have s: "set (map fst ?sub) = set keys \<inter> set (dict_keys resources)"
    unfolding m by (auto simp: dict_keys_def)
  have "set keys \<inter> set (dict_keys resources) \<subset> set keys" using unk by auto
  then have "card (set keys \<inter> set (dict_keys resources)) < card (set keys)"
    by (simp add: psubset_card_mono)
  moreover have "length ?sub = card (set keys \<inter> set (dict_keys resources))"
    using distinct_card [OF d] s by simp
  moreover have "card (set keys) \<le> length keys" by (rule card_length)
  ultimately have len: "length keys \<noteq> length ?sub" by linarith
  have "set (filter (\<lambda>k. k \<notin> set (dict_keys ?sub)) keys)
      = set keys - set (dict_keys resources)"
    using s by (auto simp: dict_keys_def)
  then have "sort (remdups (filter (\<lambda>k. k \<notin> set (dict_keys ?sub)) keys))
      = sorted_list_of_set (set keys - set (dict_keys resources))"
    using sorted_list_of_set_sort_remdups
      [of "filter (\<lambda>k. k \<notin> set (dict_keys ?sub)) keys"] by simp
  with len show ?thesis by (simp add: get_quotas_def Let_def)
qed

lemma valid_names_first_unknown:
  assumes "list_all (\<lambda>kv. res_class (snd kv) \<noteq> BaseResource) resources"
    and "find (\<lambda>k. k \<notin> set (dict_keys resources)) nms = Some nm"
  shows "valid_method_call_check_names nms ''check'' resources =
     Inl (InvalidQuotaMethodUsage ''check'' nm)"
  using assms(2)
proof (induction nms)
  case Nil
  then show ?case by simp
next
  case (Cons k nms)
  show ?case
  proof (cases "k \<in> set (dict_keys resources)")
    case False
    with Cons.prems have "nm = k" by simp
    moreover from False have "dict_get resources k = None" by (simp add: dict_get_None_iff)
    ultimately show ?thesis by (simp add: valid_method_call_check_resource_def)
  next
    case True
    then obtain r where r: "dict_get resources k = Some r"
      using dict_get_None_iff [of resources k] by (cases "dict_get resources k") auto
    then have "(k, r) \<in> set resources" by (simp add: dict_get_def map_of_SomeD)
    with assms(1) have "res_class r \<noteq> BaseResource" by (auto simp: list_all_iff)
    then have ok: "valid_method_call_check_resource k ''check'' resources = Inr ()"
      using r by (cases "res_class r") (simp_all add: valid_method_call_check_resource_def valid_method_def)
    from True Cons.prems have "find (\<lambda>k. k \<notin> set (dict_keys resources)) nms = Some nm" by simp
    from Cons.IH [OF this] ok show ?thesis by simp
  qed
qed

lemma valid_names_all_known:
  assumes "list_all (\<lambda>kv. res_class (snd kv) \<noteq> BaseResource) resources"
    and "find (\<lambda>k. k \<notin> set (dict_keys resources)) nms = None"
  shows "valid_method_call_check_names nms ''check'' resources = Inr ()"
  using assms(2)
proof (induction nms)
  case Nil
  then show ?case by simp
next
  case (Cons k nms)
  from Cons.prems have True: "k \<in> set (dict_keys resources)"
    and rest: "find (\<lambda>k. k \<notin> set (dict_keys resources)) nms = None"
    by (auto split: if_splits)
  then obtain r where r: "dict_get resources k = Some r"
    using dict_get_None_iff [of resources k] by (cases "dict_get resources k") auto
  then have "(k, r) \<in> set resources" by (simp add: dict_get_def map_of_SomeD)
  with assms(1) have "res_class r \<noteq> BaseResource" by (auto simp: list_all_iff)
  then have ok: "valid_method_call_check_resource k ''check'' resources = Inr ()"
    using r by (cases "res_class r") (simp_all add: valid_method_call_check_resource_def valid_method_def)
  from Cons.IH [OF rest] ok show ?case by simp
qed

lemma find_append_cases:
  "find P (xs @ ys) = (case find P xs of None \<Rightarrow> find P ys | Some x \<Rightarrow> Some x)"
  by (induction xs) auto

text \<open>
  What each path does with a name absent from the registry. \<open>_get_quotas\<close> raises
  QuotaResourceUnknown carrying exactly the sorted absent names, whatever the database
  holds, and \<open>QuotaEngine.count_as_dict\<close> raises it with the one name it was given.
  \<open>limit_check\<close> and \<open>limit_check_project_and_user\<close> call
  \<open>_valid_method_call_check_resources\<close> first, which (all registered resources being
  check-capable) raises InvalidQuotaMethodUsage for the first absent name in dict order.
\<close>

lemma absent_names_errors:
  "(distinct (dict_keys resources) \<and> \<not> set keys \<subseteq> set (dict_keys resources) \<longrightarrow>
      get_quotas e ctx resources keys pid uid pq =
        Inl (QuotaResourceUnknown (sorted_list_of_set (set keys - set (dict_keys resources)))))
   \<and> (dict_get resources nm = None \<longrightarrow>
        engine_count_as_dict resources nm pid uid = Inl (QuotaResourceUnknown [nm]))
   \<and> (list_all (\<lambda>kv. res_class (snd kv) \<noteq> BaseResource) resources
        \<and> find (\<lambda>k. k \<notin> set (dict_keys resources)) (dict_keys vals) = Some nm \<longrightarrow>
        limit_check e ctx resources vals project_id user_id =
          Inl (InvalidQuotaMethodUsage ''check'' nm))
   \<and> (list_all (\<lambda>kv. res_class (snd kv) \<noteq> BaseResource) resources
        \<and> find (\<lambda>k. k \<notin> set (dict_keys resources)) (dict_keys pv @ dict_keys uv) = Some nm \<longrightarrow>
        limit_check_project_and_user e ctx resources (Some pv) (Some uv) project_id user_id =
          (Inl (InvalidQuotaMethodUsage ''check'' nm), pv, uv))"
proof -
  have a: "distinct (dict_keys resources) \<and> \<not> set keys \<subseteq> set (dict_keys resources) \<longrightarrow>
      get_quotas e ctx resources keys pid uid pq =
        Inl (QuotaResourceUnknown (sorted_list_of_set (set keys - set (dict_keys resources))))"
    using get_quotas_unknown by blast
  have b: "dict_get resources nm = None \<longrightarrow>
        engine_count_as_dict resources nm pid uid = Inl (QuotaResourceUnknown [nm])"
    by (simp add: engine_count_as_dict_def)
  have c: "list_all (\<lambda>kv. res_class (snd kv) \<noteq> BaseResource) resources
        \<and> find (\<lambda>k. k \<notin> set (dict_keys resources)) (dict_keys vals) = Some nm \<longrightarrow>
        limit_check e ctx resources vals project_id user_id =
          Inl (InvalidQuotaMethodUsage ''check'' nm)"
    using valid_names_first_unknown [of resources "dict_keys vals" nm]
    by (auto simp: limit_check_def valid_method_call_check_resources_def)
  have d: "list_all (\<lambda>kv. res_class (snd kv) \<noteq> BaseResource) resources
        \<and> find (\<lambda>k. k \<notin> set (dict_keys resources)) (dict_keys pv @ dict_keys uv) = Some nm \<longrightarrow>
        limit_check_project_and_user e ctx resources (Some pv) (Some uv) project_id user_id =
          (Inl (InvalidQuotaMethodUsage ''check'' nm), pv, uv)"
  proof (intro impI, elim conjE)
    assume cap: "list_all (\<lambda>kv. res_class (snd kv) \<noteq> BaseResource) resources"
      and f: "find (\<lambda>k. k \<notin> set (dict_keys resources)) (dict_keys pv @ dict_keys uv) = Some nm"
    show "limit_check_project_and_user e ctx resources (Some pv) (Some uv) project_id user_id =
          (Inl (InvalidQuotaMethodUsage ''check'' nm), pv, uv)"
    proof (cases "find (\<lambda>k. k \<notin> set (dict_keys resources)) (dict_keys pv)")
      case (Some n)
      with f have "n = nm" by (simp add: find_append_cases)
      with Some valid_names_first_unknown [OF cap, of "dict_keys pv" nm]
      show ?thesis
        by (simp add: limit_check_project_and_user_def valid_method_call_check_resources_def)
    next
      case None
      with f have fu: "find (\<lambda>k. k \<notin> set (dict_keys resources)) (dict_keys uv) = Some nm"
        by (simp add: find_append_cases)
      from valid_names_all_known [OF cap None] valid_names_first_unknown [OF cap fu]
      show ?thesis
        by (simp add: limit_check_project_and_user_def valid_method_call_check_resources_def)
    qed
  qed
  from a b c d show ?thesis by blast
qed

text \<open>
  C7. A quota operation invoked with a name absent from the registry should raise
  QuotaResourceUnknown carrying the sorted offending names; the docstrings of
  \<open>limit_check\<close> and \<open>limit_check_project_and_user\<close> say so too, and \<open>_get_quotas\<close>
  and \<open>count_as_dict\<close> do so. The limit checks do not. On the module's registry, with
  the unknown names \<open>zzz\<close> and \<open>bogus\<close>: \<open>limit_check\<close> and
  \<open>limit_check_project_and_user\<close> raise InvalidQuotaMethodUsage naming one resource,
  the first absent name met, where \<open>_get_quotas\<close> for the same names raises
  QuotaResourceUnknown with \<open>['bogus', 'zzz']\<close>.
\<close>

theorem limit_check_unknown_name_raises_invalid_method_usage:
  "limit_check (example_env [] [] []) example_context example_registry
     [(''bogus'', 1)] None None
   = Inl (InvalidQuotaMethodUsage ''check'' ''bogus'')
   \<and> limit_check (example_env [] [] []) example_context example_registry
       [(''zzz'', 1), (''cores'', 1), (''bogus'', 1)] None None
     = Inl (InvalidQuotaMethodUsage ''check'' ''zzz'')
   \<and> limit_check_project_and_user (example_env [] [] []) example_context example_registry
       (Some [(''cores'', 1)]) (Some [(''zzz'', 1), (''bogus'', 1)]) None None
     = (Inl (InvalidQuotaMethodUsage ''check'' ''zzz''), [(''cores'', 1)],
        [(''zzz'', 1), (''bogus'', 1)])
   \<and> get_quotas (example_env [] [] []) example_context example_registry
       [''zzz'', ''cores'', ''bogus''] ''project-1'' None None
     = Inl (QuotaResourceUnknown [''bogus'', ''zzz''])
   \<and> engine_count_as_dict example_registry ''bogus'' ''project-1'' None
     = Inl (QuotaResourceUnknown [''bogus''])"
proof -
  let ?e = "example_env [] [] []"
  have keys: "dict_keys example_registry =
      [''instances'', ''cores'', ''ram'', ''metadata_items'', ''injected_files'',
       ''injected_file_content_bytes'', ''injected_file_path_bytes'', ''key_pairs'',
       ''server_groups'', ''server_group_members'', ''fixed_ips'', ''floating_ips'',
       ''security_groups'', ''security_group_rules'']"
    by (simp add: example_registry_def QUOTAS_def QuotaEngine_def dict_set_def dict_keys_def)
  have d: "distinct (dict_keys example_registry)" unfolding keys by simp
  have u: "\<not> set [''zzz'', ''cores'', ''bogus''] \<subseteq> set (dict_keys example_registry)"
    unfolding keys by simp
  have srt: "sorted_list_of_set
      (set [''zzz'', ''cores'', ''bogus''] - set (dict_keys example_registry))
      = [''bogus'', ''zzz'']"
  proof -
    have "set [''zzz'', ''cores'', ''bogus''] - set (dict_keys example_registry)
        = set [''zzz'', ''bogus'']"
      unfolding keys by auto
    then show ?thesis
      by (simp only: sorted_list_of_set_sort_remdups) (simp add: less_eq_list_code)
  qed
  have a: "limit_check ?e example_context example_registry [(''bogus'', 1)] None None
      = Inl (InvalidQuotaMethodUsage ''check'' ''bogus'')"
    and b: "limit_check ?e example_context example_registry
       [(''zzz'', 1), (''cores'', 1), (''bogus'', 1)] None None
     = Inl (InvalidQuotaMethodUsage ''check'' ''zzz'')"
    and c: "limit_check_project_and_user ?e example_context example_registry
       (Some [(''cores'', 1)]) (Some [(''zzz'', 1), (''bogus'', 1)]) None None
     = (Inl (InvalidQuotaMethodUsage ''check'' ''zzz''), [(''cores'', 1)],
        [(''zzz'', 1), (''bogus'', 1)])"
    by (simp_all add: limit_check_def limit_check_project_and_user_def
        valid_method_call_check_resources_def valid_method_call_check_resource_def
        example_registry_def QUOTAS_def QuotaEngine_def dict_set_def dict_keys_def dict_get_def
        valid_method_def)
  have g: "get_quotas ?e example_context example_registry
       [''zzz'', ''cores'', ''bogus''] ''project-1'' None None
     = Inl (QuotaResourceUnknown [''bogus'', ''zzz''])"
    using get_quotas_unknown [OF d u] unfolding srt by simp
  have n: "engine_count_as_dict example_registry ''bogus'' ''project-1'' None
     = Inl (QuotaResourceUnknown [''bogus''])"
    by (simp add: engine_count_as_dict_def example_registry_def QUOTAS_def QuotaEngine_def
        dict_set_def dict_get_def)
  from a b c g n show ?thesis by (intro conjI)
qed

subsection \<open>Settable quotas\<close>

lemma subtract_user_quota_get:
  "dict_get (subtract_user_quota m row) k =
     (if k = fst row
      then map_option (\<lambda>q. q\<lparr>remains := map_option (\<lambda>x. x - snd row) (remains q)\<rparr>) (dict_get m k)
      else dict_get m k)"
  by (cases "dict_get m (fst row)") (auto simp: subtract_user_quota_def dict_get_dict_set)

lemma subtract_user_quota_keys: "dict_keys (subtract_user_quota m row) = dict_keys m"
proof (cases "dict_get m (fst row)")
  case None
  then show ?thesis by (simp add: subtract_user_quota_def)
next
  case (Some q)
  then have "fst row \<in> set (dict_keys m)" using dict_get_None_iff [of m "fst row"] by auto
  with Some show ?thesis by (simp add: subtract_user_quota_def dict_keys_dict_set_present)
qed

lemma foldl_subtract_keys: "dict_keys (foldl subtract_user_quota m rows) = dict_keys m"
  by (induction rows arbitrary: m) (simp_all add: subtract_user_quota_keys)

lemma foldl_subtract_get:
  "dict_get (foldl subtract_user_quota m rows) k =
     map_option (\<lambda>q. q\<lparr>remains := map_option (\<lambda>x. x - granted rows k) (remains q)\<rparr>)
       (dict_get m k)"
proof (induction rows arbitrary: m)
  case Nil
  show ?case by (cases "dict_get m k") (simp_all add: granted_def option.map_ident)
next
  case (Cons row rows)
  have step: "dict_get (foldl subtract_user_quota m (row # rows)) k =
      map_option (\<lambda>q. q\<lparr>remains := map_option (\<lambda>x. x - granted rows k) (remains q)\<rparr>)
        (dict_get (subtract_user_quota m row) k)"
    using Cons.IH [of "subtract_user_quota m row"] by simp
  show ?case
  proof (cases "k = fst row")
    case True
    have g: "granted (row # rows) k = snd row + granted rows k"
      using True by (simp add: granted_def)
    have "dict_get (subtract_user_quota m row) k =
        map_option (\<lambda>q. q\<lparr>remains := map_option (\<lambda>x. x - snd row) (remains q)\<rparr>) (dict_get m k)"
      using True by (simp add: subtract_user_quota_get)
    then show ?thesis unfolding step g
      by (cases "dict_get m k") (simp_all add: option.map_comp comp_def diff_diff_eq)
  next
    case False
    have g: "granted (row # rows) k = granted rows k"
      using False by (auto simp: granted_def)
    have "dict_get (subtract_user_quota m row) k = dict_get m k"
      using False by (simp add: subtract_user_quota_get)
    then show ?thesis unfolding step g by simp
  qed
qed

lemma dict_get_of_mem: "distinct (dict_keys d) \<Longrightarrow> (k, v) \<in> set d \<Longrightarrow> dict_get d k = Some v"
  by (simp add: dict_get_def dict_keys_def)

lemma process_quotas_unfold:
  "process_quotas e ctx rs pid quotas qc usages wr =
     (let cq = (if str_truthy (if pid = ctx_project_id ctx then ctx_quota_class ctx else qc)
                then get_all_class_by_name e
                       (the (if pid = ctx_project_id ctx then ctx_quota_class ctx else qc))
                else []);
          m = foldl (\<lambda>d r. dict_set d (name r)
                  \<lparr>limit = process_limit e quotas cq (get_defaults e rs) r,
                   in_use = (if usages \<noteq> [] then Some (dict_get_or usages (name r) 0) else None),
                   remains = (if wr then Some (process_limit e quotas cq (get_defaults e rs) r)
                              else None)\<rparr>) [] (map snd rs)
      in if wr then foldl subtract_user_quota m (get_all e pid) else m)"
  by (simp add: process_quotas_def Let_def)

lemma process_quotas_entry:
  assumes "dict_get (process_quotas e ctx rs pid quotas qc usages wr) k = Some info"
  shows "in_use info = (if usages \<noteq> [] then Some (dict_get_or usages k 0) else None)
     \<and> remains info = (if wr then Some (limit info - granted (get_all e pid) k) else None)"
proof -
  let ?cq = "if str_truthy (if pid = ctx_project_id ctx then ctx_quota_class ctx else qc)
             then get_all_class_by_name e
                    (the (if pid = ctx_project_id ctx then ctx_quota_class ctx else qc))
             else []"
  let ?f = "\<lambda>r. \<lparr>limit = process_limit e quotas ?cq (get_defaults e rs) r,
                 in_use = (if usages \<noteq> [] then Some (dict_get_or usages (name r) 0) else None),
                 remains = (if wr then Some (process_limit e quotas ?cq (get_defaults e rs) r)
                            else None)\<rparr>"
  let ?m = "foldl (\<lambda>d r. dict_set d (name r) (?f r)) [] (map snd rs)"
  have pq: "process_quotas e ctx rs pid quotas qc usages wr =
      (if wr then foldl subtract_user_quota ?m (get_all e pid) else ?m)"
    by (simp add: process_quotas_unfold Let_def)
  have base: "\<And>q0. dict_get ?m k = Some q0 \<Longrightarrow>
      in_use q0 = (if usages \<noteq> [] then Some (dict_get_or usages k 0) else None)
      \<and> remains q0 = (if wr then Some (limit q0) else None)"
  proof -
    fix q0 assume q0: "dict_get ?m k = Some q0"
    then obtain x xs where fl: "filter (\<lambda>r. name r = k) (map snd rs) = x # xs"
      and i: "q0 = ?f (last (x # xs))"
      unfolding dict_get_foldl_dict_set [of name ?f "[]" "map snd rs" k]
      by (cases "filter (\<lambda>r. name r = k) (map snd rs)") (auto simp: dict_get_def)
    have "last (x # xs) \<in> set (filter (\<lambda>r. name r = k) (map snd rs))"
      unfolding fl by (rule last_in_set) simp
    then have "name (last (x # xs)) = k" by simp
    with i show "in_use q0 = (if usages \<noteq> [] then Some (dict_get_or usages k 0) else None)
      \<and> remains q0 = (if wr then Some (limit q0) else None)" by simp
  qed
  show ?thesis
  proof (cases wr)
    case False
    with assms pq have "dict_get ?m k = Some info" by simp
    from base [OF this] False show ?thesis by simp
  next
    case True
    with assms pq obtain q0 where q0: "dict_get ?m k = Some q0"
      and i: "info = q0\<lparr>remains := map_option (\<lambda>x. x - granted (get_all e pid) k) (remains q0)\<rparr>"
      by (auto simp: foldl_subtract_get)
    from base [OF q0] i True show ?thesis by simp
  qed
qed

lemma process_quotas_key_set:
  "set (dict_keys (process_quotas e ctx rs pid quotas qc usages wr)) = name ` set (map snd rs)
   \<and> distinct (dict_keys (process_quotas e ctx rs pid quotas qc usages wr))"
proof -
  let ?cq = "if str_truthy (if pid = ctx_project_id ctx then ctx_quota_class ctx else qc)
             then get_all_class_by_name e
                    (the (if pid = ctx_project_id ctx then ctx_quota_class ctx else qc))
             else []"
  let ?f = "\<lambda>r. \<lparr>limit = process_limit e quotas ?cq (get_defaults e rs) r,
                 in_use = (if usages \<noteq> [] then Some (dict_get_or usages (name r) 0) else None),
                 remains = (if wr then Some (process_limit e quotas ?cq (get_defaults e rs) r)
                            else None)\<rparr>"
  let ?m = "foldl (\<lambda>d r. dict_set d (name r) (?f r)) [] (map snd rs)"
  have pq: "process_quotas e ctx rs pid quotas qc usages wr =
      (if wr then foldl subtract_user_quota ?m (get_all e pid) else ?m)"
    by (simp add: process_quotas_unfold Let_def)
  have "dict_keys (process_quotas e ctx rs pid quotas qc usages wr) = dict_keys ?m"
    unfolding pq by (simp add: foldl_subtract_keys)
  then show ?thesis
    using foldl_dict_set_keys [of name ?f "[]" "map snd rs"]
      foldl_dict_set_distinct [of "[]" name ?f "map snd rs"]
    by (simp add: dict_keys_def)
qed

lemma process_quotas_registered:
  assumes "r \<in> set (map snd rs)"
  shows "\<exists>info. dict_get (process_quotas e ctx rs pid quotas qc usages wr) (name r) = Some info"
proof -
  from assms have "name r \<in> set (dict_keys (process_quotas e ctx rs pid quotas qc usages wr))"
    unfolding process_quotas_key_set [THEN conjunct1] by (rule imageI)
  then show ?thesis using dict_get_Some_iff by blast
qed

lemma settable_user_loop_get:
  "settable_user_loop pq setted uqs acc = Inr bands \<Longrightarrow> distinct (dict_keys uqs) \<Longrightarrow>
   dict_get bands k = Some band \<Longrightarrow>
   (\<exists>val pqi rem used. dict_get uqs k = Some val \<and> dict_get pq k = Some pqi
       \<and> remains pqi = Some rem \<and> in_use val = Some used
       \<and> band = \<lparr>minimum = used, maximum = sum_quota_values rem (dict_get_or setted k 0)\<rparr>)
   \<or> (k \<notin> set (dict_keys uqs) \<and> dict_get acc k = Some band)"
proof (induction uqs arbitrary: acc)
  case Nil
  then show ?case by (simp add: dict_keys_def)
next
  case (Cons kv uqs)
  obtain key val where kv: "kv = (key, val)" by (cases kv)
  from Cons.prems(1) kv obtain pqi rem used where
    g: "dict_get pq key = Some pqi" "remains pqi = Some rem" "in_use val = Some used"
    and r: "settable_user_loop pq setted uqs
              (dict_set acc key \<lparr>minimum = used,
                 maximum = sum_quota_values rem (dict_get_or setted key 0)\<rparr>) = Inr bands"
    by (auto split: option.splits)
  from Cons.prems(2) kv have d: "distinct (dict_keys uqs)" and kn: "key \<notin> set (dict_keys uqs)"
    by (auto simp: dict_keys_def)
  from Cons.IH [OF r d Cons.prems(3)] show ?case
  proof
    assume "\<exists>val pqi rem used. dict_get uqs k = Some val \<and> dict_get pq k = Some pqi
       \<and> remains pqi = Some rem \<and> in_use val = Some used
       \<and> band = \<lparr>minimum = used, maximum = sum_quota_values rem (dict_get_or setted k 0)\<rparr>"
    then obtain val' pqi' rem' used' where h: "dict_get uqs k = Some val'"
      "dict_get pq k = Some pqi'" "remains pqi' = Some rem'" "in_use val' = Some used'"
      "band = \<lparr>minimum = used', maximum = sum_quota_values rem' (dict_get_or setted k 0)\<rparr>"
      by blast
    from h(1) have "k \<in> set (dict_keys uqs)" using dict_get_None_iff [of uqs k] by auto
    with kn have "k \<noteq> key" by auto
    with h kv have "dict_get (kv # uqs) k = Some val'" by (simp add: dict_get_Cons)
    with h show ?thesis by blast
  next
    assume a: "k \<notin> set (dict_keys uqs) \<and>
      dict_get (dict_set acc key \<lparr>minimum = used,
                 maximum = sum_quota_values rem (dict_get_or setted key 0)\<rparr>) k = Some band"
    show ?thesis
    proof (cases "k = key")
      case True
      with a have "band = \<lparr>minimum = used,
                 maximum = sum_quota_values rem (dict_get_or setted k 0)\<rparr>"
        by (simp add: dict_get_dict_set)
      moreover from True kv have "dict_get (kv # uqs) k = Some val" by (simp add: dict_get_Cons)
      ultimately show ?thesis using g True by blast
    next
      case False
      with a kv have "k \<notin> set (dict_keys (kv # uqs))" "dict_get acc k = Some band"
        by (simp_all add: dict_get_dict_set dict_keys_def)
      then show ?thesis by blast
    qed
  qed
qed

lemma settable_project_loop_get:
  "settable_project_loop pqs acc = Inr bands \<Longrightarrow> distinct (dict_keys pqs) \<Longrightarrow>
   dict_get bands k = Some band \<Longrightarrow>
   (\<exists>val rem used. dict_get pqs k = Some val \<and> remains val = Some rem \<and> in_use val = Some used
       \<and> band = \<lparr>minimum = max (sub_quota_values (limit val) rem) used, maximum = - 1\<rparr>)
   \<or> (k \<notin> set (dict_keys pqs) \<and> dict_get acc k = Some band)"
proof (induction pqs arbitrary: acc)
  case Nil
  then show ?case by (simp add: dict_keys_def)
next
  case (Cons kv pqs)
  obtain key val where kv: "kv = (key, val)" by (cases kv)
  from Cons.prems(1) kv obtain rem used where
    g: "remains val = Some rem" "in_use val = Some used"
    and r: "settable_project_loop pqs
              (dict_set acc key \<lparr>minimum = max (sub_quota_values (limit val) rem) used,
                 maximum = - 1\<rparr>) = Inr bands"
    by (auto split: option.splits)
  from Cons.prems(2) kv have d: "distinct (dict_keys pqs)" and kn: "key \<notin> set (dict_keys pqs)"
    by (auto simp: dict_keys_def)
  from Cons.IH [OF r d Cons.prems(3)] show ?case
  proof
    assume "\<exists>val rem used. dict_get pqs k = Some val \<and> remains val = Some rem
       \<and> in_use val = Some used
       \<and> band = \<lparr>minimum = max (sub_quota_values (limit val) rem) used, maximum = - 1\<rparr>"
    then obtain val' rem' used' where h: "dict_get pqs k = Some val'"
      "remains val' = Some rem'" "in_use val' = Some used'"
      "band = \<lparr>minimum = max (sub_quota_values (limit val') rem') used', maximum = - 1\<rparr>"
      by blast
    from h(1) have "k \<in> set (dict_keys pqs)" using dict_get_None_iff [of pqs k] by auto
    with kn have "k \<noteq> key" by auto
    with h kv have "dict_get (kv # pqs) k = Some val'" by (simp add: dict_get_Cons)
    with h show ?thesis by blast
  next
    assume a: "k \<notin> set (dict_keys pqs) \<and>
      dict_get (dict_set acc key \<lparr>minimum = max (sub_quota_values (limit val) rem) used,
                 maximum = - 1\<rparr>) k = Some band"
    show ?thesis
    proof (cases "k = key")
      case True
      with a have "band = \<lparr>minimum = max (sub_quota_values (limit val) rem) used,
                 maximum = - 1\<rparr>"
        by (simp add: dict_get_dict_set)
      moreover from True kv have "dict_get (kv # pqs) k = Some val" by (simp add: dict_get_Cons)
      ultimately show ?thesis using g True by blast
    next
      case False
      with a kv have "k \<notin> set (dict_keys (kv # pqs))" "dict_get acc k = Some band"
        by (simp_all add: dict_get_dict_set dict_keys_def)
      then show ?thesis by blast
    qed
  qed
qed

lemma settable_project_loop_ok:
  "\<forall>kv \<in> set pqs. remains (snd kv) \<noteq> None \<and> in_use (snd kv) \<noteq> None \<Longrightarrow>
   \<exists>bands. settable_project_loop pqs acc = Inr bands
     \<and> set (dict_keys bands) = set (dict_keys acc) \<union> set (dict_keys pqs)"
proof (induction pqs arbitrary: acc)
  case Nil
  show ?case by (simp add: dict_keys_def)
next
  case (Cons kv pqs)
  obtain key val where kv: "kv = (key, val)" by (cases kv)
  from Cons.prems kv obtain rem used where g: "remains val = Some rem" "in_use val = Some used"
    by auto
  from Cons.prems have rest: "\<forall>kv \<in> set pqs. remains (snd kv) \<noteq> None \<and> in_use (snd kv) \<noteq> None"
    by simp
  from Cons.IH [OF rest, of "dict_set acc key
      \<lparr>minimum = max (sub_quota_values (limit val) rem) used, maximum = - 1\<rparr>"]
  obtain bands where b: "settable_project_loop pqs (dict_set acc key
      \<lparr>minimum = max (sub_quota_values (limit val) rem) used, maximum = - 1\<rparr>) = Inr bands"
    and k: "set (dict_keys bands) = set (dict_keys (dict_set acc key
      \<lparr>minimum = max (sub_quota_values (limit val) rem) used, maximum = - 1\<rparr>))
        \<union> set (dict_keys pqs)"
    by blast
  have "settable_project_loop (kv # pqs) acc = Inr bands" using kv g b by simp
  moreover have "set (dict_keys (kv # pqs)) = insert key (set (dict_keys pqs))"
    using kv by (simp add: dict_keys_def)
  then have "set (dict_keys bands) = set (dict_keys acc) \<union> set (dict_keys (kv # pqs))"
    using k unfolding set_dict_keys_dict_set by auto
  ultimately show ?case by blast
qed

lemma settable_user_loop_ok:
  "\<forall>kv \<in> set uqs. in_use (snd kv) \<noteq> None
       \<and> (\<exists>pqi. dict_get pq (fst kv) = Some pqi \<and> remains pqi \<noteq> None) \<Longrightarrow>
   \<exists>bands. settable_user_loop pq setted uqs acc = Inr bands
     \<and> set (dict_keys bands) = set (dict_keys acc) \<union> set (dict_keys uqs)"
proof (induction uqs arbitrary: acc)
  case Nil
  show ?case by (simp add: dict_keys_def)
next
  case (Cons kv uqs)
  obtain key val where kv: "kv = (key, val)" by (cases kv)
  from Cons.prems kv obtain pqi rem used where
    g: "dict_get pq key = Some pqi" "remains pqi = Some rem" "in_use val = Some used"
    by auto
  from Cons.prems have rest: "\<forall>kv \<in> set uqs. in_use (snd kv) \<noteq> None
       \<and> (\<exists>pqi. dict_get pq (fst kv) = Some pqi \<and> remains pqi \<noteq> None)"
    by simp
  from Cons.IH [OF rest, of "dict_set acc key
      \<lparr>minimum = used, maximum = sum_quota_values rem (dict_get_or setted key 0)\<rparr>"]
  obtain bands where b: "settable_user_loop pq setted uqs (dict_set acc key
      \<lparr>minimum = used, maximum = sum_quota_values rem (dict_get_or setted key 0)\<rparr>) = Inr bands"
    and k: "set (dict_keys bands) = set (dict_keys (dict_set acc key
      \<lparr>minimum = used, maximum = sum_quota_values rem (dict_get_or setted key 0)\<rparr>))
        \<union> set (dict_keys uqs)"
    by blast
  have "settable_user_loop pq setted (kv # uqs) acc = Inr bands" using kv g b by simp
  moreover have "set (dict_keys (kv # uqs)) = insert key (set (dict_keys uqs))"
    using kv by (simp add: dict_keys_def)
  then have "set (dict_keys bands) = set (dict_keys acc) \<union> set (dict_keys (kv # uqs))"
    using k unfolding set_dict_keys_dict_set by auto
  ultimately show ?case by blast
qed

text \<open>
  C5, as the code has it. Let \<open>_get_usages\<close> return a non-empty dict at project scope
  and, when a target user is given, at that user's scope (with an empty dict
  \<open>_process_quotas\<close> records no \<open>in_use\<close> and \<open>get_settable_quotas\<close> fails on the
  missing key). Then \<open>get_settable_quotas\<close> returns, and every registered resource has a
  band in the answer, under its name. For that resource, \<open>remains\<close> is the project limit
  minus the sum of the per-user override rows of the resource, by plain integer
  subtraction (\<open>_process_quotas\<close> uses \<open>-=\<close>; Unlimited does not propagate there), and
  the project's \<open>in_use\<close> is the figure \<open>_get_usages\<close> reports at project scope, 0 when
  it reports none. With a target user, minimum is the figure \<open>_get_usages\<close> reports for
  the resource at the user's scope, 0 when it reports none, and maximum is
  \<open>_sum_quota_values(remains, U)\<close>, U the user's own stored override or 0. Without
  one, minimum is the larger of \<open>_sub_quota_values(limit, remains)\<close> and the project's
  \<open>in_use\<close>, and maximum is -1.
\<close>

theorem get_settable_quotas_band:
  assumes r: "r \<in> set (map snd resources)"
    and pu: "get_usages e resources pid None = Inr pu" and pne: "pu \<noteq> []"
    and uu: "str_truthy uid \<longrightarrow> get_usages e resources pid uid = Inr uu \<and> uu \<noteq> []"
  shows "\<exists>bands band pqs info.
      get_settable_quotas e ctx resources pid uid = Inr bands
      \<and> dict_get bands (name r) = Some band
      \<and> get_project_quotas e ctx resources pid None True True
            (Some (get_all_by_project e pid)) = Inr pqs
      \<and> dict_get pqs (name r) = Some info
      \<and> remains info = Some (limit info - granted (get_all e pid) (name r))
      \<and> in_use info = Some (dict_get_or pu (name r) 0)
      \<and> (if str_truthy uid
          then minimum band = dict_get_or uu (name r) 0
               \<and> maximum band =
                   sum_quota_values (limit info - granted (get_all e pid) (name r))
                     (dict_get_or (get_all_by_project_and_user e pid (the uid)) (name r) 0)
          else minimum band =
                 max (sub_quota_values (limit info)
                        (limit info - granted (get_all e pid) (name r)))
                   (dict_get_or pu (name r) 0)
               \<and> maximum band = - 1)"
proof -
  let ?k = "name r"
  let ?dbq = "get_all_by_project e pid"
  let ?setted = "get_all_by_project_and_user e pid (the uid)"
  let ?pqs = "process_quotas e ctx resources pid ?dbq None pu True"
  have pq: "get_project_quotas e ctx resources pid None True True (Some ?dbq) = Inr ?pqs"
    using pu by (simp add: get_project_quotas_def Let_def dict_or_same)
  have dpq: "distinct (dict_keys ?pqs)"
    and kpq: "set (dict_keys ?pqs) = name ` set (map snd resources)"
    using process_quotas_key_set [of e ctx resources pid ?dbq None pu True] by simp_all
  from process_quotas_registered [OF r] obtain info where
    info: "dict_get ?pqs ?k = Some info" by blast
  from process_quotas_entry [OF info] pne have
    rem: "remains info = Some (limit info - granted (get_all e pid) ?k)"
    and iu: "in_use info = Some (dict_get_or pu ?k 0)" by simp_all
  have pq_entries: "\<And>kv. kv \<in> set ?pqs \<Longrightarrow> remains (snd kv) \<noteq> None \<and> in_use (snd kv) \<noteq> None"
  proof -
    fix kv assume "kv \<in> set ?pqs"
    then have "(fst kv, snd kv) \<in> set ?pqs" by simp
    from dict_get_of_mem [OF dpq this] have "dict_get ?pqs (fst kv) = Some (snd kv)" .
    from process_quotas_entry [OF this] pne
    show "remains (snd kv) \<noteq> None \<and> in_use (snd kv) \<noteq> None" by simp
  qed
  show ?thesis
  proof (cases "str_truthy uid")
    case False
    have gs: "get_settable_quotas e ctx resources pid uid = settable_project_loop ?pqs []"
      using pq False by (simp add: get_settable_quotas_def Let_def)
    from settable_project_loop_ok [of ?pqs "[]"] pq_entries obtain bands where
      loop: "settable_project_loop ?pqs [] = Inr bands"
      and kb: "set (dict_keys bands) = set (dict_keys ([] :: settable dict)) \<union> set (dict_keys ?pqs)"
      by blast
    from kb kpq r have "?k \<in> set (dict_keys bands)" by (simp add: dict_keys_def)
    then obtain band where bk: "dict_get bands ?k = Some band"
      using dict_get_Some_iff [of bands ?k] by blast
    from settable_project_loop_get [OF loop dpq bk] info
    obtain rm used where h: "remains info = Some rm" "in_use info = Some used"
      "band = \<lparr>minimum = max (sub_quota_values (limit info) rm) used, maximum = - 1\<rparr>"
      by (auto simp: dict_get_def)
    from h rem iu have "minimum band =
        max (sub_quota_values (limit info) (limit info - granted (get_all e pid) ?k))
          (dict_get_or pu ?k 0)" "maximum band = - 1" by simp_all
    with gs loop bk pq info rem iu False show ?thesis by auto
  next
    case True
    from uu True have gu: "get_usages e resources pid uid = Inr uu" and une: "uu \<noteq> []"
      by simp_all
    from True obtain x where x: "uid = Some x" by (cases uid) (auto simp: str_truthy_def)
    let ?uq1 = "foldl (\<lambda>u kv. if fst kv \<notin> set (dict_keys u) then dict_set u (fst kv) (snd kv)
                                else u)
                  (dict_or (Some ?setted) (get_all_by_project_and_user e pid (the uid)))
                  (dict_or (Some ?dbq) ?dbq)"
    let ?uqs = "process_quotas e ctx resources pid ?uq1 None uu False"
    have uq: "get_user_quotas e ctx resources pid (the uid) None True (Some ?dbq) (Some ?setted)
        = Inr ?uqs"
      using gu x by (simp add: get_user_quotas_def Let_def)
    have duq: "distinct (dict_keys ?uqs)"
      and kuq: "set (dict_keys ?uqs) = name ` set (map snd resources)"
      using process_quotas_key_set [of e ctx resources pid ?uq1 None uu False] by simp_all
    have gs: "get_settable_quotas e ctx resources pid uid
        = settable_user_loop ?pqs ?setted ?uqs []"
      using pq uq True by (simp add: get_settable_quotas_def Let_def)
    have uq_entries: "\<forall>kv \<in> set ?uqs. in_use (snd kv) \<noteq> None
       \<and> (\<exists>pqi. dict_get ?pqs (fst kv) = Some pqi \<and> remains pqi \<noteq> None)"
    proof
      fix kv assume m: "kv \<in> set ?uqs"
      then have "(fst kv, snd kv) \<in> set ?uqs" by simp
      from dict_get_of_mem [OF duq this] have "dict_get ?uqs (fst kv) = Some (snd kv)" .
      from process_quotas_entry [OF this] une have a: "in_use (snd kv) \<noteq> None" by simp
      from m have "fst kv \<in> set (dict_keys ?uqs)" by (simp add: dict_keys_def)
      with kuq kpq have "fst kv \<in> set (dict_keys ?pqs)" by simp
      then obtain pqi where p: "dict_get ?pqs (fst kv) = Some pqi"
        using dict_get_Some_iff [of ?pqs "fst kv"] by blast
      from process_quotas_entry [OF p] have "remains pqi \<noteq> None" by simp
      with a p show "in_use (snd kv) \<noteq> None
       \<and> (\<exists>pqi. dict_get ?pqs (fst kv) = Some pqi \<and> remains pqi \<noteq> None)" by blast
    qed
    from settable_user_loop_ok [OF uq_entries, of ?setted "[]"] obtain bands where
      loop: "settable_user_loop ?pqs ?setted ?uqs [] = Inr bands"
      and kb: "set (dict_keys bands) = set (dict_keys ([] :: settable dict)) \<union> set (dict_keys ?uqs)"
      by blast
    from kb kuq r have "?k \<in> set (dict_keys bands)" by (simp add: dict_keys_def)
    then obtain band where bk: "dict_get bands ?k = Some band"
      using dict_get_Some_iff [of bands ?k] by blast
    from settable_user_loop_get [OF loop duq bk] info
    obtain val rm used where h: "dict_get ?uqs ?k = Some val" "remains info = Some rm"
      "in_use val = Some used"
      "band = \<lparr>minimum = used, maximum = sum_quota_values rm (dict_get_or ?setted ?k 0)\<rparr>"
      by (auto simp: dict_get_def)
    from process_quotas_entry [OF h(1)] une h(3) have "used = dict_get_or uu ?k 0" by simp
    with h rem have "minimum band = dict_get_or uu ?k 0"
      "maximum band = sum_quota_values (limit info - granted (get_all e pid) ?k)
         (dict_get_or ?setted ?k 0)" by simp_all
    with gs loop bk pq info rem iu True show ?thesis by auto
  qed
qed

text \<open>The definitions unfolded to run the settable-quota examples.\<close>

lemmas eval_defs3 = cores_registry_def get_settable_quotas_def subtract_user_quota_def
  sum_quota_values_def sub_quota_values_def is_unlimited_value_def UNLIMITED_VALUE_def
  claimed_remains_def granted_def

text \<open>
  Limit 20 and two users granted 5 each: remains is 10; a user with no grant of their
  own gets minimum 6 (the usage \<open>_get_usages\<close> reports for them) and maximum
  10 + 0 = 10; the project-level band is minimum max(20 - 10, 18) = 18 and maximum -1.
\<close>

theorem get_settable_quotas_band_witness:
  "get_usages (example_env [] [] [(''cores'', 5), (''cores'', 5)]) cores_registry
     ''project-1'' (Some ''user-9'')
   = Inr [(''instances'', 3), (''cores'', 6), (''ram'', 512)]
   \<and> get_project_quotas (example_env [] [] [(''cores'', 5), (''cores'', 5)]) example_context
     cores_registry ''project-1'' None True True (Some [])
   = Inr [(''cores'', \<lparr>limit = 20, in_use = Some 18, remains = Some 10\<rparr>)]
   \<and> get_settable_quotas (example_env [] [] [(''cores'', 5), (''cores'', 5)]) example_context
       cores_registry ''project-1'' (Some ''user-9'')
     = Inr [(''cores'', \<lparr>minimum = 6, maximum = 10\<rparr>)]
   \<and> get_settable_quotas (example_env [] [] [(''cores'', 5), (''cores'', 5)]) example_context
       cores_registry ''project-1'' None
     = Inr [(''cores'', \<lparr>minimum = 18, maximum = - 1\<rparr>)]
   \<and> maximum \<lparr>minimum = 6, maximum = 10\<rparr> = sum_quota_values (20 - (5 + 5)) 0"
proof -
  let ?e = "example_env [] [] [(''cores'', 5), (''cores'', 5)]"
  let ?r = "\<lparr>res_class = CountableResource, name = ''cores'', flag = Some ''cores'',
             count_as_dict = example_counts\<rparr>"
  have r: "?r \<in> set (map snd cores_registry)"
    by (simp add: cores_registry_def QuotaEngine_def dict_set_def)
  have pu: "get_usages ?e cores_registry ''project-1'' None
      = Inr [(''instances'', 9), (''cores'', 18), (''ram'', 2048 :: int)]"
    by (simp add: eval_defs eval_defs3)
  have pne: "[(''instances'', 9), (''cores'', 18), (''ram'', 2048 :: int)] \<noteq> []" by simp
  have uu: "get_usages ?e cores_registry ''project-1'' (Some ''user-9'')
      = Inr [(''instances'', 3), (''cores'', 6), (''ram'', 512 :: int)]"
    by (simp add: eval_defs eval_defs3)
  have uh: "str_truthy (Some ''user-9'') \<longrightarrow>
      get_usages ?e cores_registry ''project-1'' (Some ''user-9'')
        = Inr [(''instances'', 3), (''cores'', 6), (''ram'', 512 :: int)]
      \<and> [(''instances'', 3), (''cores'', 6), (''ram'', 512 :: int)] \<noteq> []"
    using uu by simp
  have p: "get_project_quotas ?e example_context cores_registry ''project-1'' None True True
      (Some []) = Inr [(''cores'', \<lparr>limit = 20, in_use = Some 18, remains = Some 10\<rparr>)]"
    by (simp add: eval_defs eval_defs3)
  have u: "get_settable_quotas ?e example_context cores_registry ''project-1'' (Some ''user-9'')
      = Inr [(''cores'', \<lparr>minimum = 6, maximum = 10\<rparr>)]"
    by (simp add: eval_defs eval_defs3)
  have n: "get_settable_quotas ?e example_context cores_registry ''project-1'' None
      = Inr [(''cores'', \<lparr>minimum = 18, maximum = - 1\<rparr>)]"
    by (simp add: eval_defs eval_defs3)
  have pe: "get_all_by_project ?e ''project-1'' = []" by (simp add: example_env_def)
  have tr: "str_truthy (Some ''user-9'')" by (simp add: str_truthy_def)
  from get_settable_quotas_band [OF r pu pne uh, of example_context]
  obtain bands band pqs info where
    g: "get_settable_quotas ?e example_context cores_registry ''project-1'' (Some ''user-9'')
          = Inr bands"
    and bk: "dict_get bands (name ?r) = Some band"
    and a: "get_project_quotas ?e example_context cores_registry ''project-1'' None True True
          (Some (get_all_by_project ?e ''project-1'')) = Inr pqs"
    and b: "dict_get pqs (name ?r) = Some info"
    and c: "maximum band =
        sum_quota_values (limit info - granted (get_all ?e ''project-1'') (name ?r))
          (dict_get_or (get_all_by_project_and_user ?e ''project-1'' (the (Some ''user-9'')))
             (name ?r) 0)"
    using tr by auto
  from g u have "bands = [(''cores'', \<lparr>minimum = 6, maximum = 10\<rparr>)]" by simp
  with bk have band: "band = \<lparr>minimum = 6, maximum = 10\<rparr>" by (simp add: dict_get_def)
  from a p have "pqs = [(''cores'', \<lparr>limit = 20, in_use = Some 18, remains = Some 10\<rparr>)]"
    unfolding pe by simp
  with b have "limit info = 20" by (auto simp: dict_get_def)
  with c band have "maximum \<lparr>minimum = 6, maximum = 10\<rparr> = sum_quota_values (20 - (5 + 5)) 0"
    by (simp add: example_env_def granted_def dict_get_or_def)
  with uu p u n show ?thesis by (intro conjI)
qed

text \<open>
  C5 as stated fails in three places. Where it says that \<open>remains\<close> propagates
  Unlimited: with limit 20 and one user holding the override -1, the code computes
  remains 20 - (-1) = 21 and offers another user a maximum of 21, where the claim gives
  Unlimited for both; with an unlimited project and two users granted 5 each, the
  code's remains is -1 - 10 = -11, not the sentinel -1. Where it says that a user's
  minimum is their current in-use count: \<open>_get_usages\<close> never counts \<open>key_pairs\<close> (nor
  \<open>server_group_members\<close>) and reports 0, so a user whose key pairs count as 1 gets the
  minimum 0. Where it says that the project-level minimum is max(limit - remains,
  project in-use): the code takes the difference with \<open>_sub_quota_values\<close>, which is -1
  as soon as remains is -1, so with limit 20, one user granted 21 and 18 in use the
  minimum is max(-1, 18) = 18, not max(20 - (-1), 18) = 21.
\<close>

theorem get_settable_quotas_counterexample:
  "get_project_quotas (example_env [] [] [(''cores'', - 1)]) example_context
     cores_registry ''project-1'' None True True (Some [])
   = Inr [(''cores'', \<lparr>limit = 20, in_use = Some 18, remains = Some 21\<rparr>)]
   \<and> claimed_remains 20 [- 1] = - 1
   \<and> get_project_quotas (example_env [(''cores'', - 1)] [] [(''cores'', 5), (''cores'', 5)])
       example_context cores_registry ''project-1'' None True True (Some [(''cores'', - 1)])
     = Inr [(''cores'', \<lparr>limit = - 1, in_use = Some 18, remains = Some (- 11)\<rparr>)]
   \<and> claimed_remains (- 1) [5, 5] = - 1
   \<and> get_settable_quotas (example_env [] [] [(''cores'', - 1)]) example_context
       cores_registry ''project-1'' (Some ''user-9'')
     = Inr [(''cores'', \<lparr>minimum = 6, maximum = 21\<rparr>)]
   \<and> sum_quota_values (claimed_remains 20 [- 1]) 0 = - 1
   \<and> engine_count_as_dict example_registry ''key_pairs'' ''project-1'' (Some ''user-9'')
     = Inr [(''user'', [(''key_pairs'', 1)])]
   \<and> get_usages (example_env [] [] []) example_registry ''project-1'' (Some ''user-9'')
     = Inr [(''instances'', 3), (''cores'', 6), (''ram'', 512), (''key_pairs'', 0),
            (''server_groups'', 1), (''server_group_members'', 0)]
   \<and> (case get_settable_quotas (example_env [] [] []) example_context example_registry
              ''project-1'' (Some ''user-9'') of
         Inl err \<Rightarrow> None
       | Inr bands \<Rightarrow> dict_get bands ''key_pairs'')
     = Some \<lparr>minimum = 0, maximum = - 1\<rparr>
   \<and> get_project_quotas (example_env [] [] [(''cores'', 21)]) example_context
       cores_registry ''project-1'' None True True (Some [])
     = Inr [(''cores'', \<lparr>limit = 20, in_use = Some 18, remains = Some (- 1)\<rparr>)]
   \<and> get_settable_quotas (example_env [] [] [(''cores'', 21)]) example_context
       cores_registry ''project-1'' None
     = Inr [(''cores'', \<lparr>minimum = 18, maximum = - 1\<rparr>)]
   \<and> max (20 - (- 1)) (18 :: int) = 21"
proof -
  have a: "get_project_quotas (example_env [] [] [(''cores'', - 1)]) example_context
     cores_registry ''project-1'' None True True (Some [])
   = Inr [(''cores'', \<lparr>limit = 20, in_use = Some 18, remains = Some 21\<rparr>)]"
    by (simp add: eval_defs eval_defs3)
  have b: "claimed_remains 20 [- 1] = - 1" by (simp add: eval_defs3)
  have c: "get_project_quotas (example_env [(''cores'', - 1)] [] [(''cores'', 5), (''cores'', 5)])
       example_context cores_registry ''project-1'' None True True (Some [(''cores'', - 1)])
     = Inr [(''cores'', \<lparr>limit = - 1, in_use = Some 18, remains = Some (- 11)\<rparr>)]"
    by (simp add: eval_defs eval_defs3)
  have d: "claimed_remains (- 1) [5, 5] = - 1" by (simp add: eval_defs3)
  have f: "get_settable_quotas (example_env [] [] [(''cores'', - 1)]) example_context
       cores_registry ''project-1'' (Some ''user-9'')
     = Inr [(''cores'', \<lparr>minimum = 6, maximum = 21\<rparr>)]"
    by (simp add: eval_defs eval_defs3)
  have g: "sum_quota_values (claimed_remains 20 [- 1]) 0 = - 1" by (simp add: eval_defs3)
  have h: "engine_count_as_dict example_registry ''key_pairs'' ''project-1'' (Some ''user-9'')
     = Inr [(''user'', [(''key_pairs'', 1)])]"
    by (simp add: eval_defs engine_count_as_dict_def)
  have i: "get_usages (example_env [] [] []) example_registry ''project-1'' (Some ''user-9'')
     = Inr [(''instances'', 3), (''cores'', 6), (''ram'', 512), (''key_pairs'', 0),
            (''server_groups'', 1), (''server_group_members'', 0)]"
    by (simp add: eval_defs eval_defs3)
  have j: "(case get_settable_quotas (example_env [] [] []) example_context example_registry
              ''project-1'' (Some ''user-9'') of
         Inl err \<Rightarrow> None
       | Inr bands \<Rightarrow> dict_get bands ''key_pairs'')
     = Some \<lparr>minimum = 0, maximum = - 1\<rparr>"
    by (simp add: eval_defs eval_defs3)
  have k: "get_project_quotas (example_env [] [] [(''cores'', 21)]) example_context
       cores_registry ''project-1'' None True True (Some [])
     = Inr [(''cores'', \<lparr>limit = 20, in_use = Some 18, remains = Some (- 1)\<rparr>)]"
    by (simp add: eval_defs eval_defs3)
  have l: "get_settable_quotas (example_env [] [] [(''cores'', 21)]) example_context
       cores_registry ''project-1'' None
     = Inr [(''cores'', \<lparr>minimum = 18, maximum = - 1\<rparr>)]"
    by (simp add: eval_defs eval_defs3)
  have m: "max (20 - (- 1)) (18 :: int) = 21" by simp
  from a b c d f g h i j k l m show ?thesis by (intro conjI)
qed

end
